theory Spec2Isabelle
  imports Complex_Main
begin

section \<open>The skiing game: session controller, obstacle tree and yeti\<close>

text \<open>
  A shallow embedding of the game loop of the skiing game: the session controller
  (component \<open>Game\<close>), the obstacle tree (component \<open>ObstacleTree\<close>, in its two
  versions) and the pursuing yeti (component \<open>Yeti\<close>).

  Conventions of the embedding.
  \<^item> A JavaScript \<open>number\<close> that holds a coordinate, a speed or a frame time is a
    \<open>real\<close>; the score and the millisecond clock (\<open>Date.now()\<close>) are \<open>int\<close>.
  \<^item> The player's position is accumulated frame after frame, so its additions and
    subtractions are the double-precision ones: the exact result rounded to the nearest
    double (\<open>roundDouble\<close>).
  \<^item> React state (\<open>useState\<close>) and refs (\<open>useRef\<close>) of a component are the fields of
    one record; a state setter takes effect at once.
  \<^item> A pending \<open>setTimeout\<close> is an entry (deadline, action) of the field \<open>timeouts\<close>;
    it fires when the clock has reached its deadline.
  \<^item> \<open>console.log\<close> output is not modelled.
\<close>

subsection \<open>Double-precision rounding\<close>

text \<open>
  The binary exponent of a positive number \<open>a\<close>, searched upward from 0 when \<open>1 \<le> a\<close> and
  downward from -1 otherwise, within the exponent range of a double. Below the smallest
  normal number the exponent stays at -1022, which gives the subnormal numbers their
  spacing.
\<close>

function expUp :: "int \<Rightarrow> real \<Rightarrow> int" where
  "expUp e a = (if e < 1023 \<and> 2 powi (e + 1) \<le> a then expUp (e + 1) a else e)"
  by pat_completeness auto
termination
  by (relation "measure (\<lambda>(e, a). nat (1023 - e))") auto

function expDown :: "int \<Rightarrow> real \<Rightarrow> int" where
  "expDown e a = (if - 1022 < e \<and> a < 2 powi e then expDown (e - 1) a else e)"
  by pat_completeness auto
termination
  by (relation "measure (\<lambda>(e, a). nat (e + 1022))") auto

declare expUp.simps [simp del] expDown.simps [simp del]

definition exponent :: "real \<Rightarrow> int" where
  "exponent x = (if 1 \<le> \<bar>x\<bar> then expUp 0 \<bar>x\<bar> else expDown (- 1) \<bar>x\<bar>)"

text \<open>The distance between neighbouring doubles around \<open>x\<close> (53 bits of precision).\<close>

definition ulp :: "real \<Rightarrow> real" where
  "ulp x = 2 powi (exponent x - 52)"

text \<open>Rounding to the nearest integer, a tie to the even one.\<close>

definition roundHalfEven :: "real \<Rightarrow> int" where
  "roundHalfEven y =
     (let f = \<lfloor>y\<rfloor>; d = y - of_int f
      in if d < 1 / 2 then f
         else if 1 / 2 < d then f + 1
         else if even f then f else f + 1)"

text \<open>
  The double nearest to \<open>x\<close>, a tie to the one with the even significand. A result beyond
  the largest double, which the source would turn into \<open>Infinity\<close>, is not modelled: the
  arguments that occur stay within \<open>[-5, 5]\<close>.
\<close>

definition roundDouble :: "real \<Rightarrow> real" where
  "roundDouble x = (if x = 0 then 0 else of_int (roundHalfEven (x / ulp x)) * ulp x)"

subsection \<open>Constants of \<open>Game\<close>\<close>

definition COLLISION_DISTANCE :: real where
  "COLLISION_DISTANCE = 0.8"

definition COLLISION_Z_THRESHOLD :: real where
  "COLLISION_Z_THRESHOLD = 5"

definition CRASH_RECOVERY_TIME :: int where
  "CRASH_RECOVERY_TIME = 2000"

definition YETI_APPEARANCE_SCORE :: int where
  "YETI_APPEARANCE_SCORE = 50"

definition YETI_ATTACK_DELAY :: int where
  "YETI_ATTACK_DELAY = 5000"

definition YETI_COLLISION_DISTANCE :: real where
  "YETI_COLLISION_DISTANCE = 1.2"

definition YETI_Z_COLLISION_DISTANCE :: real where
  "YETI_Z_COLLISION_DISTANCE = 3.0"

definition slopeWidth :: real where
  "slopeWidth = 10"

text \<open>
  The literal \<open>0.1\<close> of the source denotes the double nearest to one tenth, which is
  \<open>3602879701896397 / 2 ^ 55\<close>.
\<close>

definition moveSpeed :: real where
  "moveSpeed = 3602879701896397 / 36028797018963968"

subsection \<open>State of \<open>Game\<close>\<close>

text \<open>A reported position, the object \<open>{x, z}\<close> of the source.\<close>

record point =
  px :: real
  pz :: real

text \<open>What a pending timeout does when it fires.\<close>

datatype action =
    ClearCrashed       \<comment> \<open>\<open>setCrashed(false)\<close>, scheduled by \<open>handleCrash\<close>\<close>
  | HideYetiWarning    \<comment> \<open>\<open>setShowYetiWarning(false)\<close>\<close>
  | StartYetiAttack    \<comment> \<open>\<open>setShowYeti(true); setYetiAttacking(true)\<close>\<close>

record game =
  position :: real
  crashed :: bool
  score :: int
  lookBehind :: bool
  showYeti :: bool
  showYetiWarning :: bool
  yetiAttacking :: bool
  yetiCaught :: bool
  initialYetiPosition :: "real \<times> real \<times> real"
  keysPressed :: "string \<rightharpoonup> bool"
  obstaclePositions :: "point list"
  yetiPosition :: "point option"
  lastCrashTime :: int
  yetiHasAppeared :: bool
  now :: int
  timeouts :: "(int \<times> action) list"

text \<open>The state at mount; \<open>t0\<close> is the value of \<open>Date.now()\<close> then.\<close>

definition initGame :: "int \<Rightarrow> game" where
  "initGame t0 =
     \<lparr> position = 0, crashed = False, score = 0, lookBehind = False, showYeti = False,
       showYetiWarning = False, yetiAttacking = False, yetiCaught = False,
       initialYetiPosition = (0, 0, 0), keysPressed = Map.empty, obstaclePositions = [],
       yetiPosition = None, lastCrashTime = 0, yetiHasAppeared = False, now = t0,
       timeouts = [] \<rparr>"

subsection \<open>Crash handling and the collision check\<close>

text \<open>The handlers that the collision check calls, recorded as signals.\<close>

datatype signal = TreeCrash | YetiCatch

definition handleCrash :: "game \<Rightarrow> game" where
  "handleCrash s =
     (if \<not> yetiAttacking s then
        s\<lparr> crashed := True, score := 0, lastCrashTime := now s,
           timeouts := timeouts s @ [(now s + CRASH_RECOVERY_TIME, ClearCrashed)] \<rparr>
      else s)"

definition handleYetiCatch :: "game \<Rightarrow> game" where
  "handleYetiCatch s = s\<lparr> yetiCaught := True, crashed := True \<rparr>"

text \<open>
  The loop over the reported obstacles: the result is the obstacle at which the loop
  calls \<open>handleCrash\<close> and breaks, or \<open>None\<close> when the loop runs to its end.
\<close>

fun scanObstacles :: "real \<Rightarrow> point list \<Rightarrow> point option" where
  "scanObstacles playerX [] = None"
| "scanObstacles playerX (obstacle # rest) =
     (if pz obstacle < 0 \<and> pz obstacle > - COLLISION_Z_THRESHOLD then
        (let dx = \<bar>playerX - px obstacle\<bar> in
         if dx < COLLISION_DISTANCE then Some obstacle
         else scanObstacles playerX rest)
      else scanObstacles playerX rest)"

text \<open>
  The callback \<open>updateObstaclePositions\<close>. It returns the handlers it has called, in
  order, and the new state. \<open>position\<close>, \<open>crashed\<close>, \<open>yetiAttacking\<close> and \<open>yetiCaught\<close>
  are the values the callback has captured, so they are read from the state at entry.
\<close>

definition updateObstaclePositions :: "point list \<Rightarrow> game \<Rightarrow> signal list \<times> game" where
  "updateObstaclePositions positions s =
     (if positions = [] then ([], s)
      else
        let s1 = s\<lparr> obstaclePositions := positions \<rparr> in
        if \<not> crashed s \<and> \<not> yetiCaught s then
          if now s1 - lastCrashTime s1 < 500 then ([], s1)
          else
            let (sig1, s2) =
                  (case scanObstacles (position s) positions of
                     Some obstacle \<Rightarrow> ([TreeCrash], handleCrash s1)
                   | None \<Rightarrow> ([], s1))
            in
              (case yetiPosition s2 of
                 Some yp \<Rightarrow>
                   if yetiAttacking s \<and>
                      \<bar>position s - px yp\<bar> < YETI_COLLISION_DISTANCE \<and>
                      \<bar>0 - pz yp\<bar> < YETI_Z_COLLISION_DISTANCE
                   then (sig1 @ [YetiCatch], handleYetiCatch s2)
                   else (sig1, s2)
               | None \<Rightarrow> (sig1, s2))
        else ([], s1))"

definition handleYetiPositionUpdate :: "point \<Rightarrow> game \<Rightarrow> game" where
  "handleYetiPositionUpdate pos s = s\<lparr> yetiPosition := Some pos \<rparr>"


subsection \<open>Player movement, score and the yeti trigger\<close>

text \<open>A key counts as held when the dictionary holds \<open>true\<close> for it (a missing key is falsy).\<close>

definition held :: "(string \<rightharpoonup> bool) \<Rightarrow> string \<Rightarrow> bool" where
  "held keys k \<longleftrightarrow> keys k = Some True"

text \<open>
  One run of \<open>updatePosition\<close>. The two \<open>setPosition\<close> updaters are applied in the order
  they were queued, the second to the result of the first. \<open>prev + moveSpeed\<close> and
  \<open>prev - moveSpeed\<close> are double-precision operations; the bounds \<open>slopeWidth / 2 - 1 = 4\<close>
  and \<open>-slopeWidth / 2 + 1 = -4\<close> are computed without rounding error.
\<close>

definition updatePosition :: "game \<Rightarrow> game" where
  "updatePosition s =
     (if \<not> crashed s \<and> \<not> yetiCaught s then
        let p1 = (if held (keysPressed s) ''ArrowLeft'' \<or> held (keysPressed s) ''a''
                  then min (roundDouble (position s + moveSpeed)) (slopeWidth / 2 - 1)
                  else position s);
            p2 = (if held (keysPressed s) ''ArrowRight'' \<or> held (keysPressed s) ''d''
                  then max (roundDouble (p1 - moveSpeed)) (- slopeWidth / 2 + 1)
                  else p1)
        in s\<lparr> position := p2 \<rparr>
      else s)"

definition handleKeyDown :: "string \<Rightarrow> string \<Rightarrow> game \<Rightarrow> game" where
  "handleKeyDown key code s =
     (let s1 = s\<lparr> keysPressed := (keysPressed s)(key \<mapsto> True) \<rparr>
      in if code = ''Space'' then s1\<lparr> lookBehind := True \<rparr> else s1)"

definition handleKeyUp :: "string \<Rightarrow> string \<Rightarrow> game \<Rightarrow> game" where
  "handleKeyUp key code s =
     (let s1 = s\<lparr> keysPressed := (keysPressed s)(key \<mapsto> False) \<rparr>
      in if code = ''Space'' then s1\<lparr> lookBehind := False \<rparr> else s1)"

text \<open>The callback of the 100 ms score interval.\<close>

definition scoreInterval :: "game \<Rightarrow> game" where
  "scoreInterval s =
     (if \<not> crashed s \<and> \<not> yetiCaught s then s\<lparr> score := score s + 1 \<rparr> else s)"

text \<open>The condition under which the yeti trigger effect does its work.\<close>

definition yetiTriggerCond :: "game \<Rightarrow> bool" where
  "yetiTriggerCond s \<longleftrightarrow> score s \<ge> YETI_APPEARANCE_SCORE \<and> \<not> yetiHasAppeared s"

text \<open>The effect with dependencies \<open>[score, position]\<close> that makes the yeti appear.\<close>

definition yetiTriggerEffect :: "game \<Rightarrow> game" where
  "yetiTriggerEffect s =
     (if yetiTriggerCond s then
        s\<lparr> showYetiWarning := True,
           initialYetiPosition := (position s, 0, - 120),
           yetiHasAppeared := True,
           timeouts := timeouts s @
             [(now s + 3000, HideYetiWarning), (now s + YETI_ATTACK_DELAY, StartYetiAttack)] \<rparr>
      else s)"

subsection \<open>Timeouts\<close>

fun runAction :: "action \<Rightarrow> game \<Rightarrow> game" where
  "runAction ClearCrashed s = s\<lparr> crashed := False \<rparr>"
| "runAction HideYetiWarning s = s\<lparr> showYetiWarning := False \<rparr>"
| "runAction StartYetiAttack s = s\<lparr> showYeti := True, yetiAttacking := True \<rparr>"

abbreviation runActions :: "action list \<Rightarrow> game \<Rightarrow> game" where
  "runActions as s \<equiv> foldl (\<lambda>s' a. runAction a s') s as"

definition due :: "int \<Rightarrow> int \<times> action \<Rightarrow> bool" where
  "due t e \<longleftrightarrow> fst e \<le> t"

text \<open>
  Fire every timeout whose deadline the clock has reached, earliest deadline first
  (\<open>sort_key\<close> is stable, so equal deadlines fire in the order they were set).
\<close>

definition fireDue :: "game \<Rightarrow> game" where
  "fireDue s =
     runActions (map snd (sort_key fst (filter (due (now s)) (timeouts s))))
       (s\<lparr> timeouts := filter (\<lambda>e. \<not> due (now s) e) (timeouts s) \<rparr>)"

subsection \<open>The session as a sequence of events\<close>

datatype event =
    KeyDown string string     \<comment> \<open>\<open>e.key\<close> and \<open>e.code\<close> of a keydown event\<close>
  | KeyUp string string
  | AnimationFrame            \<comment> \<open>one run of \<open>updatePosition\<close>\<close>
  | ObstacleReport "point list"   \<comment> \<open>the slope calls \<open>updateObstaclePositions\<close>\<close>
  | YetiReport point          \<comment> \<open>the yeti calls \<open>onPositionUpdate\<close>\<close>
  | ScoreTick                 \<comment> \<open>the score interval fires\<close>
  | Elapse nat                \<comment> \<open>so many milliseconds pass\<close>

text \<open>The yeti exists, and reports, only while \<open>showYeti\<close> holds.\<close>

fun handler :: "event \<Rightarrow> game \<Rightarrow> game" where
  "handler (KeyDown key code) s = handleKeyDown key code s"
| "handler (KeyUp key code) s = handleKeyUp key code s"
| "handler AnimationFrame s = updatePosition s"
| "handler (ObstacleReport positions) s = snd (updateObstaclePositions positions s)"
| "handler (YetiReport pos) s = (if showYeti s then handleYetiPositionUpdate pos s else s)"
| "handler ScoreTick s = scoreInterval s"
| "handler (Elapse dt) s = fireDue (s\<lparr> now := now s + int dt \<rparr>)"

text \<open>
  After an event the component renders again, and the yeti trigger effect runs when one of
  its dependencies has changed.
\<close>

definition depsChanged :: "game \<Rightarrow> game \<Rightarrow> bool" where
  "depsChanged s s1 \<longleftrightarrow> score s1 \<noteq> score s \<or> position s1 \<noteq> position s"

definition step :: "event \<Rightarrow> game \<Rightarrow> game" where
  "step ev s =
     (let s1 = handler ev s in if depsChanged s s1 then yetiTriggerEffect s1 else s1)"

fun run :: "event list \<Rightarrow> game \<Rightarrow> game" where
  "run [] s = s"
| "run (ev # evs) s = run evs (step ev s)"

text \<open>The number of steps of a run in which the yeti trigger effect does its work.\<close>

definition stepFires :: "event \<Rightarrow> game \<Rightarrow> bool" where
  "stepFires ev s \<longleftrightarrow> depsChanged s (handler ev s) \<and> yetiTriggerCond (handler ev s)"

fun triggerCount :: "event list \<Rightarrow> game \<Rightarrow> nat" where
  "triggerCount [] s = 0"
| "triggerCount (ev # evs) s = (if stepFires ev s then 1 else 0) + triggerCount evs (step ev s)"

text \<open>The number of pending recovery timeouts.\<close>

definition pendingRecoveries :: "game \<Rightarrow> nat" where
  "pendingRecoveries s = length (filter (\<lambda>e. snd e = ClearCrashed) (timeouts s))"

text \<open>
  The invariant of the recovery timeouts: at most one is pending, none while the player is
  not crashed, and none once the yeti has caught the player.
\<close>

definition recoveryInv :: "game \<Rightarrow> bool" where
  "recoveryInv s \<longleftrightarrow>
     pendingRecoveries s \<le> 1 \<and>
     (\<not> crashed s \<longrightarrow> pendingRecoveries s = 0) \<and>
     (yetiCaught s \<longrightarrow> crashed s \<and> pendingRecoveries s = 0)"

text \<open>The terminal state after the yeti has caught the player.\<close>

definition terminal :: "game \<Rightarrow> bool" where
  "terminal s \<longleftrightarrow> yetiCaught s \<and> crashed s \<and> pendingRecoveries s = 0"

text \<open>The number of pending timeouts that start the yeti attack.\<close>

definition pendingAttacks :: "game \<Rightarrow> nat" where
  "pendingAttacks s = length (filter (\<lambda>e. snd e = StartYetiAttack) (timeouts s))"

text \<open>
  The player is recovering from a crash whose recovery timeout has the deadline \<open>D\<close>: the
  deadline is still ahead and every pending recovery timeout has this deadline.
\<close>

definition recovering :: "int \<Rightarrow> game \<Rightarrow> bool" where
  "recovering D s \<longleftrightarrow>
     crashed s \<and> score s = 0 \<and> now s < D \<and> (D, ClearCrashed) \<in> set (timeouts s) \<and>
     (\<forall>e \<in> set (timeouts s). snd e = ClearCrashed \<longrightarrow> fst e = D)"

section \<open>The obstacle tree\<close>

text \<open>
  The repository holds the component \<open>ObstacleTree\<close> twice. The version of
  \<open>src/components/ObstacleTree.tsx\<close> draws the tree's x uniformly and uses the frame time
  as it comes; the other version places the tree in one of five lanes and caps the frame
  time. The definitions of the second carry the suffix \<open>_lanes\<close>.
\<close>

definition SLOPE_WIDTH :: real where
  "SLOPE_WIDTH = 10"

definition SLOPE_SPEED :: real where
  "SLOPE_SPEED = 0.4"

definition OBSTACLE_SPAWN_DISTANCE :: real where
  "OBSTACLE_SPAWN_DISTANCE = 120"

text \<open>
  \<open>treePosition\<close> is the React state \<open>position\<close>, \<open>refX\<close> and \<open>refZ\<close> are the position of the
  rendered group \<open>treeRef.current\<close>.
\<close>

record tree =
  treePosition :: "real \<times> real \<times> real"
  refX :: real
  refZ :: real
  lastPositionRef :: point

text \<open>The tree as the component's initial values give it, before any \<open>resetTree\<close>.\<close>

definition initTree :: tree where
  "initTree =
     \<lparr> treePosition = (0, 0, OBSTACLE_SPAWN_DISTANCE), refX = 0, refZ = OBSTACLE_SPAWN_DISTANCE,
       lastPositionRef = \<lparr>px = 0, pz = OBSTACLE_SPAWN_DISTANCE\<rparr> \<rparr>"

text \<open>
  \<open>resetTree\<close>; \<open>rnd\<close> is the value of \<open>Math.random()\<close>. The new state is rendered, which
  moves the group to the new position.
\<close>

definition resetTree :: "real \<Rightarrow> tree \<Rightarrow> tree" where
  "resetTree rnd t =
     (let xPos = rnd * (SLOPE_WIDTH - 4) - (SLOPE_WIDTH - 4) / 2
      in t\<lparr> treePosition := (xPos, 0, OBSTACLE_SPAWN_DISTANCE),
            refX := xPos, refZ := OBSTACLE_SPAWN_DISTANCE \<rparr>)"

definition resetTree_lanes :: "real \<Rightarrow> tree \<Rightarrow> tree" where
  "resetTree_lanes rnd t =
     (let randomOffset = of_int \<lfloor>rnd * 5\<rfloor> * 0.6 - 1.5;
          xPos = randomOffset
      in t\<lparr> treePosition := (xPos, 0, OBSTACLE_SPAWN_DISTANCE),
            refX := xPos, refZ := OBSTACLE_SPAWN_DISTANCE \<rparr>)"

text \<open>The advance of one frame, the local \<open>moveAmount\<close> of the frame callback.\<close>

definition moveAmount :: "real \<Rightarrow> real" where
  "moveAmount delta = SLOPE_SPEED * delta * 60"

definition moveAmount_lanes :: "real \<Rightarrow> real" where
  "moveAmount_lanes delta = (let smoothDelta = min delta 0.05 in SLOPE_SPEED * smoothDelta * 60)"

definition predictionFactor :: "real \<Rightarrow> real" where
  "predictionFactor distanceToPlayer =
     (if distanceToPlayer < 5 then 0.2
      else if distanceToPlayer < 15 then 0.5
      else 1.0)"

text \<open>
  The part of the frame callback that both versions share, after \<open>moveAmount\<close> has been
  computed: advance, report the predicted position when a callback is given, reset the tree
  when it has passed the player. \<open>reset\<close> is the version's \<open>resetTree\<close>.
\<close>

definition advanceAndReport :: "(tree \<Rightarrow> tree) \<Rightarrow> bool \<Rightarrow> real \<Rightarrow> tree \<Rightarrow> point option \<times> tree" where
  "advanceAndReport reset hasCallback amount t =
     (let t1 = t\<lparr> refZ := refZ t - amount \<rparr>;
          (report, t2) =
            (if hasCallback then
               let currentZ = refZ t1;
                   distanceToPlayer = \<bar>currentZ\<bar>;
                   predictedZ = currentZ - amount * predictionFactor distanceToPlayer;
                   p = \<lparr> px = refX t1, pz = predictedZ \<rparr>
               in (Some p, t1\<lparr> lastPositionRef := p \<rparr>)
             else (None, t1))
      in (report, if refZ t2 < - 15 then reset t2 else t2))"

text \<open>
  The frame callbacks. \<open>mounted\<close> says that \<open>treeRef.current\<close> is set, \<open>hasCallback\<close> that
  \<open>onPositionUpdate\<close> is given.
\<close>

definition ObstacleTree_useFrame :: "bool \<Rightarrow> bool \<Rightarrow> real \<Rightarrow> real \<Rightarrow> tree \<Rightarrow> point option \<times> tree" where
  "ObstacleTree_useFrame mounted hasCallback delta rnd t =
     (if mounted then advanceAndReport (resetTree rnd) hasCallback (moveAmount delta) t
      else (None, t))"

definition ObstacleTree_useFrame_lanes :: "bool \<Rightarrow> bool \<Rightarrow> real \<Rightarrow> real \<Rightarrow> tree \<Rightarrow> point option \<times> tree" where
  "ObstacleTree_useFrame_lanes mounted hasCallback delta rnd t =
     (if mounted then advanceAndReport (resetTree_lanes rnd) hasCallback (moveAmount_lanes delta) t
      else (None, t))"

section \<open>The yeti\<close>

definition lerp :: "real \<Rightarrow> real \<Rightarrow> real \<Rightarrow> real" where
  "lerp start end' t = start * (1 - t) + end' * t"

datatype AttackPhase = APPROACH | CHASE | ATTACK

text \<open>
  \<open>posX\<close>, \<open>posY\<close>, \<open>posZ\<close> and \<open>scaleY\<close> belong to the rendered group \<open>yetiRef.current\<close>,
  \<open>positionState\<close> is the React state \<open>position\<close>, the other fields are the refs and the
  state of the component.
\<close>

record yeti =
  posX :: real
  posY :: real
  posZ :: real
  scaleY :: real
  positionState :: "real \<times> real \<times> real"
  targetPositionX :: real
  targetPositionZ :: real
  initialPlayerPosition :: point
  armAngle :: real
  jumpHeight :: real
  attackPhase :: AttackPhase
  rotationY :: real
  chaseSpeed :: real
  visibilityHeight :: real

text \<open>The yeti once mounted, after the effect that places it at its initial position.\<close>

definition initYeti :: "real \<times> real \<times> real \<Rightarrow> yeti" where
  "initYeti initialPosition =
     \<lparr> posX = fst initialPosition, posY = - 1, posZ = snd (snd initialPosition), scaleY = 1,
       positionState = initialPosition,
       targetPositionX = fst initialPosition, targetPositionZ = snd (snd initialPosition),
       initialPlayerPosition = \<lparr>px = 0, pz = 0\<rparr>, armAngle = 0, jumpHeight = 0,
       attackPhase = APPROACH, rotationY = 0, chaseSpeed = 0.05, visibilityHeight = - 1 \<rparr>"

text \<open>The effect that runs when \<open>attacking\<close> changes.\<close>

definition attackingEffect :: "bool \<Rightarrow> point \<Rightarrow> yeti \<Rightarrow> yeti" where
  "attackingEffect attacking playerPosition y =
     (if attacking then
        y\<lparr> initialPlayerPosition := playerPosition, targetPositionX := px playerPosition \<rparr>
      else y)"

text \<open>
  The \<open>switch\<close> over the attack phase; \<open>elapsed\<close> is \<open>state.clock.getElapsedTime()\<close>.
\<close>

definition phaseStep :: "real \<times> real \<times> real \<Rightarrow> point \<Rightarrow> real \<Rightarrow> real \<Rightarrow> yeti \<Rightarrow> yeti" where
  "phaseStep initialPosition playerPosition elapsed smoothDelta y =
     (case attackPhase y of
        APPROACH \<Rightarrow>
          y\<lparr> targetPositionZ := snd (snd initialPosition) + 30,
             targetPositionX := px playerPosition + 2,
             visibilityHeight :=
               (if visibilityHeight y < 1.0 then visibilityHeight y + smoothDelta * 0.3
                else visibilityHeight y),
             armAngle := sin (elapsed * 8) * 0.6,
             jumpHeight := \<bar>sin (elapsed * 6)\<bar> * 0.3,
             chaseSpeed := lerp (chaseSpeed y) 0.07 0.01,
             attackPhase := (if posZ y < - 40 then CHASE else APPROACH) \<rparr>
      | CHASE \<Rightarrow>
          y\<lparr> targetPositionZ := - 15,
             targetPositionX := lerp (targetPositionX y) (px playerPosition + 1) 0.03,
             visibilityHeight := 1.0,
             armAngle := sin (elapsed * 12) * 0.7,
             jumpHeight := \<bar>sin (elapsed * 9)\<bar> * 0.4,
             chaseSpeed := lerp (chaseSpeed y) 0.1 0.01,
             attackPhase := (if posZ y < - 7 then ATTACK else CHASE) \<rparr>
      | ATTACK \<Rightarrow>
          y\<lparr> targetPositionZ := 0.8,
             targetPositionX := lerp (targetPositionX y) (px playerPosition) 0.15,
             armAngle := sin (elapsed * 15) * 1.0,
             jumpHeight := \<bar>sin (elapsed * 12)\<bar> * 0.5,
             chaseSpeed := 0.18 \<rparr>)"

text \<open>
  The frame callback of the yeti. \<open>mounted\<close> says that \<open>yetiRef.current\<close> is set,
  \<open>attacking\<close> is the prop, \<open>hasCallback\<close> says that \<open>onPositionUpdate\<close> is given and
  \<open>playerPosition\<close> is what \<open>getPlayerPosition()\<close> returns. The result is the position
  reported through \<open>onPositionUpdate\<close>, if any, and the new state.
\<close>

definition Yeti_useFrame ::
  "bool \<Rightarrow> bool \<Rightarrow> bool \<Rightarrow> real \<times> real \<times> real \<Rightarrow> point \<Rightarrow> real \<Rightarrow> real \<Rightarrow> yeti \<Rightarrow> point option \<times> yeti" where
  "Yeti_useFrame mounted attacking hasCallback initialPosition playerPosition elapsed delta y =
     (if \<not> mounted \<or> \<not> attacking then (None, y)
      else
        let smoothDelta = min delta 0.05;
            y1 = phaseStep initialPosition playerPosition elapsed smoothDelta y;
            y2 = y1\<lparr> posX := lerp (posX y1) (targetPositionX y1) (0.05 * smoothDelta * 60),
                    posZ := lerp (posZ y1) (targetPositionZ y1) (chaseSpeed y1 * smoothDelta * 60),
                    posY := visibilityHeight y1 + jumpHeight y1,
                    scaleY := 1 + sin (elapsed * 1.5) * 0.03 \<rparr>;
            report = (if hasCallback then Some \<lparr> px = posX y2, pz = posZ y2 \<rparr> else None)
        in (report, y2\<lparr> positionState := (posX y2, posY y2, posZ y2) \<rparr>))"

text \<open>
  A sequence of frames of a mounted yeti; each frame comes with the \<open>attacking\<close> prop, the
  player's position, the elapsed time and the frame time.
\<close>

fun Yeti_frames ::
  "bool \<Rightarrow> real \<times> real \<times> real \<Rightarrow> (bool \<times> point \<times> real \<times> real) list \<Rightarrow> yeti \<Rightarrow> yeti" where
  "Yeti_frames hasCallback initialPosition [] y = y"
| "Yeti_frames hasCallback initialPosition ((attacking, playerPosition, elapsed, delta) # frames) y =
     Yeti_frames hasCallback initialPosition frames
       (snd (Yeti_useFrame True attacking hasCallback initialPosition playerPosition elapsed delta y))"

text \<open>The order of the phases.\<close>

fun phaseRank :: "AttackPhase \<Rightarrow> nat" where
  "phaseRank APPROACH = 0"
| "phaseRank CHASE = 1"
| "phaseRank ATTACK = 2"

section \<open>Properties\<close>

subsection \<open>The tree collision scan\<close>









subsection \<open>Timeouts leave most of the state alone\<close>

lemma runActions_crashed: "crashed (runActions as s) \<longleftrightarrow> crashed s \<and> ClearCrashed \<notin> set as"
proof (induction as arbitrary: s)
  case (Cons a as)
  then show ?case by (cases a) auto
qed simp

lemma runActions_yetiAttacking:
  "yetiAttacking (runActions as s) \<longleftrightarrow> yetiAttacking s \<or> StartYetiAttack \<in> set as"
proof (induction as arbitrary: s)
  case (Cons a as)
  then show ?case by (cases a) auto
qed simp

lemma runAction_frame:
  "yetiCaught (runAction a s) = yetiCaught s"
  "score (runAction a s) = score s"
  "position (runAction a s) = position s"
  "timeouts (runAction a s) = timeouts s"
  "now (runAction a s) = now s"
  "lastCrashTime (runAction a s) = lastCrashTime s"
  "yetiHasAppeared (runAction a s) = yetiHasAppeared s"
  "initialYetiPosition (runAction a s) = initialYetiPosition s"
  by (cases a; simp)+

lemma runActions_yetiCaught: "yetiCaught (runActions as s) = yetiCaught s"
  by (induction as arbitrary: s) (simp_all add: runAction_frame)

lemma runActions_score: "score (runActions as s) = score s"
  by (induction as arbitrary: s) (simp_all add: runAction_frame)

lemma runActions_position: "position (runActions as s) = position s"
  by (induction as arbitrary: s) (simp_all add: runAction_frame)

lemma runActions_timeouts: "timeouts (runActions as s) = timeouts s"
  by (induction as arbitrary: s) (simp_all add: runAction_frame)

lemma runActions_now: "now (runActions as s) = now s"
  by (induction as arbitrary: s) (simp_all add: runAction_frame)

lemma runActions_lastCrashTime: "lastCrashTime (runActions as s) = lastCrashTime s"
  by (induction as arbitrary: s) (simp_all add: runAction_frame)

lemma runActions_yetiHasAppeared: "yetiHasAppeared (runActions as s) = yetiHasAppeared s"
  by (induction as arbitrary: s) (simp_all add: runAction_frame)

lemma runActions_initialYetiPosition:
  "initialYetiPosition (runActions as s) = initialYetiPosition s"
  by (induction as arbitrary: s) (simp_all add: runAction_frame)

lemmas runActions_frame =
  runActions_yetiCaught runActions_score runActions_position runActions_timeouts
  runActions_now runActions_lastCrashTime runActions_yetiHasAppeared
  runActions_initialYetiPosition

lemma fireDue_crashed:
  "crashed (fireDue s) \<longleftrightarrow>
     crashed s \<and> \<not> (\<exists>e \<in> set (timeouts s). due (now s) e \<and> snd e = ClearCrashed)"
proof -
  have "set (map snd (sort_key fst (filter (due (now s)) (timeouts s))))
      = snd ` {e \<in> set (timeouts s). due (now s) e}"
    by simp
  then have "crashed (fireDue s) \<longleftrightarrow>
      crashed s \<and> ClearCrashed \<notin> snd ` {e \<in> set (timeouts s). due (now s) e}"
    unfolding fireDue_def runActions_crashed by simp
  also have "ClearCrashed \<notin> snd ` {e \<in> set (timeouts s). due (now s) e} \<longleftrightarrow>
      \<not> (\<exists>e \<in> set (timeouts s). due (now s) e \<and> snd e = ClearCrashed)"
    by (auto simp: image_iff)
  finally show ?thesis .
qed

lemma fireDue_timeouts:
  "timeouts (fireDue s) = filter (\<lambda>e. \<not> due (now s) e) (timeouts s)"
  by (simp add: fireDue_def runActions_frame)

lemma fireDue_frame:
  "yetiCaught (fireDue s) = yetiCaught s"
  "score (fireDue s) = score s"
  "position (fireDue s) = position s"
  "now (fireDue s) = now s"
  "lastCrashTime (fireDue s) = lastCrashTime s"
  "yetiHasAppeared (fireDue s) = yetiHasAppeared s"
  "initialYetiPosition (fireDue s) = initialYetiPosition s"
  by (simp_all add: fireDue_def runActions_frame)

lemma length_filter_conj_le: "length (filter (\<lambda>x. P x \<and> Q x) xs) \<le> length (filter Q xs)"
  by (induction xs) auto

lemma pendingRecoveries_fireDue_le: "pendingRecoveries (fireDue s) \<le> pendingRecoveries s"
  by (simp add: pendingRecoveries_def fireDue_timeouts length_filter_conj_le)

lemma pendingRecoveries_0_iff:
  "pendingRecoveries s = 0 \<longleftrightarrow> (\<forall>e \<in> set (timeouts s). snd e \<noteq> ClearCrashed)"
  by (auto simp: pendingRecoveries_def filter_empty_conv)

lemma fireDue_recovery_fired:
  assumes "pendingRecoveries s \<le> 1" and "\<not> crashed (fireDue s)" and "crashed s"
  shows "pendingRecoveries (fireDue s) = 0"
proof -
  from assms(2,3) obtain e where e: "e \<in> set (timeouts s)" "due (now s) e" "snd e = ClearCrashed"
    by (auto simp: fireDue_crashed)
  let ?cc = "filter (\<lambda>e. snd e = ClearCrashed) (timeouts s)"
  from e have "e \<in> set ?cc" by simp
  moreover from assms(1) have "length ?cc \<le> 1" by (simp add: pendingRecoveries_def)
  ultimately have cc: "?cc = [e]"
    by (cases ?cc) auto
  have only: "e' = e" if "e' \<in> set (timeouts s)" and "snd e' = ClearCrashed" for e'
  proof -
    from that have "e' \<in> set ?cc" by simp
    then show ?thesis unfolding cc by simp
  qed
  have "snd e' \<noteq> ClearCrashed" if "e' \<in> set (filter (\<lambda>e. \<not> due (now s) e) (timeouts s))" for e'
  proof
    assume "snd e' = ClearCrashed"
    moreover from that have "e' \<in> set (timeouts s)" and "\<not> due (now s) e'" by simp_all
    ultimately show False using only [of e'] e(2) by simp
  qed
  then show ?thesis
    unfolding pendingRecoveries_0_iff fireDue_timeouts by blast
qed


subsection \<open>The invariant of the recovery timeouts\<close>

lemma recoveryInv_init: "recoveryInv (initGame t0)"
  by (simp add: recoveryInv_def initGame_def pendingRecoveries_def)

lemma recoveryInv_handleCrash:
  "recoveryInv s \<Longrightarrow> \<not> crashed s \<Longrightarrow> \<not> yetiCaught s \<Longrightarrow> recoveryInv (handleCrash s)"
  by (simp add: recoveryInv_def handleCrash_def pendingRecoveries_def)

lemma recoveryInv_handleYetiCatch:
  "recoveryInv s \<Longrightarrow> \<not> crashed s \<Longrightarrow> recoveryInv (handleYetiCatch s)"
  by (simp add: recoveryInv_def handleYetiCatch_def pendingRecoveries_def)

lemma recoveryInv_obstaclePositions:
  "recoveryInv (s\<lparr>obstaclePositions := ps\<rparr>) = recoveryInv s"
  by (simp add: recoveryInv_def pendingRecoveries_def)

lemma handleCrash_yetiAttacking: "yetiAttacking s \<Longrightarrow> handleCrash s = s"
  by (simp add: handleCrash_def)

lemma handleCrash_fields:
  "yetiAttacking (handleCrash s) = yetiAttacking s"
  "yetiCaught (handleCrash s) = yetiCaught s"
  "yetiPosition (handleCrash s) = yetiPosition s"
  "position (handleCrash s) = position s"
  by (simp_all add: handleCrash_def)

lemma recoveryInv_updateObstaclePositions:
  assumes "recoveryInv s"
  shows "recoveryInv (snd (updateObstaclePositions positions s))"
proof (cases "positions = [] \<or> crashed s \<or> yetiCaught s \<or> now s - lastCrashTime s < 500")
  case True
  with assms show ?thesis
    by (auto simp: updateObstaclePositions_def Let_def recoveryInv_obstaclePositions)
next
  case False
  let ?s1 = "s\<lparr>obstaclePositions := positions\<rparr>"
  from assms have s1: "recoveryInv ?s1" by (simp add: recoveryInv_obstaclePositions)
  show ?thesis
  proof (cases "yetiAttacking s")
    case True
    then have "handleCrash ?s1 = ?s1" by (simp add: handleCrash_def)
    moreover from False s1 have "recoveryInv (handleYetiCatch ?s1)"
      by (intro recoveryInv_handleYetiCatch) simp_all
    ultimately show ?thesis using False s1
      by (auto simp: updateObstaclePositions_def Let_def split: option.splits)
  next
    case na: False
    from False s1 have "recoveryInv (handleCrash ?s1)"
      by (intro recoveryInv_handleCrash) simp_all
    with na False s1 show ?thesis
      by (auto simp: updateObstaclePositions_def Let_def split: option.splits)
  qed
qed

lemma recoveryInv_fireDue:
  assumes "recoveryInv s"
  shows "recoveryInv (fireDue s)"
proof -
  from assms have le1: "pendingRecoveries s \<le> 1"
    and nc: "\<not> crashed s \<Longrightarrow> pendingRecoveries s = 0"
    and yc: "yetiCaught s \<Longrightarrow> crashed s \<and> pendingRecoveries s = 0"
    by (simp_all add: recoveryInv_def)
  have a: "pendingRecoveries (fireDue s) \<le> 1"
    using pendingRecoveries_fireDue_le [of s] le1 by simp
  have b: "pendingRecoveries (fireDue s) = 0" if "\<not> crashed (fireDue s)"
  proof (cases "crashed s")
    case True
    with le1 that show ?thesis by (simp add: fireDue_recovery_fired)
  next
    case False
    with nc pendingRecoveries_fireDue_le [of s] show ?thesis by simp
  qed
  have c: "crashed (fireDue s) \<and> pendingRecoveries (fireDue s) = 0" if "yetiCaught (fireDue s)"
  proof -
    from that have "yetiCaught s" by (simp add: fireDue_frame)
    with yc have "crashed s" and p0: "pendingRecoveries s = 0" by simp_all
    from p0 have "\<forall>e \<in> set (timeouts s). snd e \<noteq> ClearCrashed"
      by (simp add: pendingRecoveries_0_iff)
    with \<open>crashed s\<close> have "crashed (fireDue s)" by (simp add: fireDue_crashed)
    moreover from p0 pendingRecoveries_fireDue_le [of s] have "pendingRecoveries (fireDue s) = 0"
      by simp
    ultimately show ?thesis by simp
  qed
  from a b c show ?thesis by (simp add: recoveryInv_def)
qed

lemma recoveryInv_now: "recoveryInv (s\<lparr>now := t\<rparr>) = recoveryInv s"
  by (simp add: recoveryInv_def pendingRecoveries_def)

lemma recoveryInv_handler: "recoveryInv s \<Longrightarrow> recoveryInv (handler ev s)"
proof (cases ev)
  case (ObstacleReport positions)
  assume "recoveryInv s"
  with ObstacleReport show ?thesis by (simp add: recoveryInv_updateObstaclePositions)
next
  case (Elapse dt)
  assume "recoveryInv s"
  with Elapse show ?thesis by (simp add: recoveryInv_fireDue recoveryInv_now)
qed (auto simp: recoveryInv_def pendingRecoveries_def handleKeyDown_def handleKeyUp_def
       updatePosition_def handleYetiPositionUpdate_def scoreInterval_def Let_def)

lemma recoveryInv_yetiTriggerEffect: "recoveryInv (yetiTriggerEffect s) = recoveryInv s"
  by (simp add: recoveryInv_def pendingRecoveries_def yetiTriggerEffect_def)

lemma recoveryInv_step: "recoveryInv s \<Longrightarrow> recoveryInv (step ev s)"
  by (simp add: step_def Let_def recoveryInv_yetiTriggerEffect recoveryInv_handler)

lemma recoveryInv_run: "recoveryInv s \<Longrightarrow> recoveryInv (run evs s)"
  by (induction evs arbitrary: s) (simp_all add: recoveryInv_step)

subsection \<open>The state after a catch\<close>

lemma terminal_fireDue:
  assumes "terminal s"
  shows "terminal (fireDue s)"
proof -
  from assms have "\<forall>e \<in> set (timeouts s). snd e \<noteq> ClearCrashed"
    by (simp add: terminal_def pendingRecoveries_0_iff)
  with assms have "crashed (fireDue s)"
    by (simp add: terminal_def fireDue_crashed)
  moreover from assms pendingRecoveries_fireDue_le [of s] have "pendingRecoveries (fireDue s) = 0"
    by (simp add: terminal_def)
  ultimately show ?thesis using assms by (simp add: terminal_def fireDue_frame)
qed

lemma terminal_handler:
  assumes "terminal s"
  shows "terminal (handler ev s) \<and> score (handler ev s) = score s \<and>
         position (handler ev s) = position s"
proof (cases ev)
  case (Elapse dt)
  from assms have "terminal (s\<lparr>now := now s + int dt\<rparr>)"
    by (simp add: terminal_def pendingRecoveries_def)
  from terminal_fireDue [OF this] Elapse show ?thesis
    by (simp add: fireDue_frame)
qed (use assms in \<open>auto simp: terminal_def pendingRecoveries_def handleKeyDown_def handleKeyUp_def
       updatePosition_def handleYetiPositionUpdate_def scoreInterval_def
       updateObstaclePositions_def Let_def\<close>)

lemma terminal_step:
  assumes "terminal s"
  shows "terminal (step ev s) \<and> score (step ev s) = score s \<and> position (step ev s) = position s"
  using terminal_handler [OF assms, of ev] by (simp add: step_def depsChanged_def)

lemma terminal_run:
  "terminal s \<Longrightarrow>
   terminal (run evs s) \<and> score (run evs s) = score s \<and> position (run evs s) = position s"
proof (induction evs arbitrary: s)
  case Nil
  then show ?case by simp
next
  case (Cons ev evs)
  from terminal_step [OF Cons.prems, of ev] Cons.IH [of "step ev s"] show ?case by simp
qed

lemma caught_terminal: "recoveryInv s \<Longrightarrow> yetiCaught s \<Longrightarrow> terminal s"
  by (simp add: recoveryInv_def terminal_def)

lemma caught_stays:
  assumes "yetiCaught (run evs0 (initGame t0))"
  shows "terminal (run evs (run evs0 (initGame t0))) \<and>
         score (run evs (run evs0 (initGame t0))) = score (run evs0 (initGame t0)) \<and>
         position (run evs (run evs0 (initGame t0))) = position (run evs0 (initGame t0))"
proof -
  have "recoveryInv (run evs0 (initGame t0))"
    by (simp add: recoveryInv_run recoveryInv_init)
  with assms have "terminal (run evs0 (initGame t0))"
    by (simp add: caught_terminal)
  from terminal_run [OF this, of evs] show ?thesis .
qed

lemma yetiCatch_guards:
  assumes "YetiCatch \<in> set (fst (updateObstaclePositions positions s))"
  shows "positions \<noteq> [] \<and> \<not> crashed s \<and> \<not> yetiCaught s \<and> \<not> now s - lastCrashTime s < 500 \<and>
         yetiAttacking s \<and>
         (\<exists>yp. yetiPosition s = Some yp \<and> \<bar>position s - px yp\<bar> < YETI_COLLISION_DISTANCE \<and>
               \<bar>0 - pz yp\<bar> < YETI_Z_COLLISION_DISTANCE)"
  using assms
  by (auto simp: updateObstaclePositions_def Let_def handleCrash_def
      split: if_splits option.splits)

lemma step_yetiCatch:
  assumes "YetiCatch \<in> set (fst (updateObstaclePositions positions s))"
  shows "step (ObstacleReport positions) s = handleYetiCatch (s\<lparr>obstaclePositions := positions\<rparr>)"
proof -
  from yetiCatch_guards [OF assms] assms
  have h: "handler (ObstacleReport positions) s =
             handleYetiCatch (s\<lparr>obstaclePositions := positions\<rparr>)"
    by (auto simp: updateObstaclePositions_def Let_def handleCrash_def
        split: if_splits option.splits)
  then have "score (handler (ObstacleReport positions) s) = score s"
    and "position (handler (ObstacleReport positions) s) = position s"
    by (simp_all add: handleYetiCatch_def)
  then have "step (ObstacleReport positions) s = handler (ObstacleReport positions) s"
    by (simp add: step_def depsChanged_def)
  with h show ?thesis by simp
qed

text \<open>The flag \<open>yetiCaught\<close> is set by a catch and by nothing else.\<close>

lemma yetiCaught_only_by_catch:
  assumes "yetiCaught (step ev s)" and "\<not> yetiCaught s"
  shows "\<exists>positions. ev = ObstacleReport positions \<and>
           YetiCatch \<in> set (fst (updateObstaclePositions positions s))"
proof -
  have "yetiCaught (step ev s) = yetiCaught (handler ev s)"
    by (simp add: step_def Let_def yetiTriggerEffect_def)
  with assms have h: "yetiCaught (handler ev s)" by simp
  show ?thesis
  proof (cases ev)
    case (ObstacleReport positions)
    with h assms(2) have "YetiCatch \<in> set (fst (updateObstaclePositions positions s))"
      by (auto simp: updateObstaclePositions_def Let_def handleCrash_def handleYetiCatch_def
          split: if_splits option.splits)
    with ObstacleReport show ?thesis by simp
  next
    case (Elapse dt)
    with h assms(2) show ?thesis by (simp add: fireDue_frame)
  qed (use h assms(2) in \<open>auto simp: handleKeyDown_def handleKeyUp_def Let_def updatePosition_def
         handleYetiPositionUpdate_def scoreInterval_def split: if_splits\<close>)
qed

text \<open>
  Claim C3. Let the yeti catch the player in a state \<open>s\<close> that the session has reached. The
  catch sets \<open>yetiCaught\<close> and \<open>crashed\<close> and leaves the score as it is. From then on every
  further sequence of events leaves \<open>yetiCaught\<close> and \<open>crashed\<close> true: no recovery timeout
  is pending, so none clears \<open>crashed\<close>, and the score (and the player's position) stay what
  they were at the catch.
\<close>

theorem yeti_catch_is_terminal:
  assumes s: "s = run evs0 (initGame t0)"
    and catch: "YetiCatch \<in> set (fst (updateObstaclePositions positions s))"
    and s': "s' = step (ObstacleReport positions) s"
  shows "yetiCaught s' \<and> crashed s' \<and> score s' = score s \<and> pendingRecoveries s' = 0 \<and>
         yetiCaught (run evs s') \<and> crashed (run evs s') \<and>
         pendingRecoveries (run evs s') = 0 \<and>
         score (run evs s') = score s' \<and> position (run evs s') = position s'"
proof -
  from step_yetiCatch [OF catch] s'
  have eq: "s' = handleYetiCatch (s\<lparr>obstaclePositions := positions\<rparr>)" by simp
  then have flags: "yetiCaught s'" "crashed s'" "score s' = score s"
    by (simp_all add: handleYetiCatch_def)
  have "recoveryInv s" unfolding s by (simp add: recoveryInv_run recoveryInv_init)
  then have "recoveryInv s'" unfolding s' by (rule recoveryInv_step)
  with flags(1) have t: "terminal s'" by (simp add: caught_terminal)
  from terminal_run [OF t, of evs] t flags show ?thesis
    by (simp add: terminal_def)
qed

theorem yeti_catch_is_terminal_witness:
  "YetiCatch \<in> set (fst (updateObstaclePositions [\<lparr>px = 3, pz = 100\<rparr>]
      (run (replicate 50 ScoreTick @ [Elapse 5000, YetiReport \<lparr>px = 0, pz = - 1\<rparr>])
        (initGame 1000)))) \<and>
   \<not> yetiCaught (run (replicate 50 ScoreTick @ [Elapse 5000, YetiReport \<lparr>px = 0, pz = - 1\<rparr>])
        (initGame 1000)) \<and>
   score (run (replicate 50 ScoreTick @ [Elapse 5000, YetiReport \<lparr>px = 0, pz = - 1\<rparr>])
        (initGame 1000)) = 50 \<and>
   yetiCaught (step (ObstacleReport [\<lparr>px = 3, pz = 100\<rparr>])
      (run (replicate 50 ScoreTick @ [Elapse 5000, YetiReport \<lparr>px = 0, pz = - 1\<rparr>])
        (initGame 1000))) \<and>
   crashed (step (ObstacleReport [\<lparr>px = 3, pz = 100\<rparr>])
      (run (replicate 50 ScoreTick @ [Elapse 5000, YetiReport \<lparr>px = 0, pz = - 1\<rparr>])
        (initGame 1000))) \<and>
   yetiCaught (run [Elapse 10000, ScoreTick, ObstacleReport [\<lparr>px = 0, pz = - 1\<rparr>], AnimationFrame]
     (step (ObstacleReport [\<lparr>px = 3, pz = 100\<rparr>])
      (run (replicate 50 ScoreTick @ [Elapse 5000, YetiReport \<lparr>px = 0, pz = - 1\<rparr>])
        (initGame 1000)))) \<and>
   crashed (run [Elapse 10000, ScoreTick, ObstacleReport [\<lparr>px = 0, pz = - 1\<rparr>], AnimationFrame]
     (step (ObstacleReport [\<lparr>px = 3, pz = 100\<rparr>])
      (run (replicate 50 ScoreTick @ [Elapse 5000, YetiReport \<lparr>px = 0, pz = - 1\<rparr>])
        (initGame 1000)))) \<and>
   score (run [Elapse 10000, ScoreTick, ObstacleReport [\<lparr>px = 0, pz = - 1\<rparr>], AnimationFrame]
     (step (ObstacleReport [\<lparr>px = 3, pz = 100\<rparr>])
      (run (replicate 50 ScoreTick @ [Elapse 5000, YetiReport \<lparr>px = 0, pz = - 1\<rparr>])
        (initGame 1000)))) = 50"
proof -
  let ?s = "run (replicate 50 ScoreTick @ [Elapse 5000, YetiReport \<lparr>px = 0, pz = - 1\<rparr>])
        (initGame 1000)"
  let ?evs = "[Elapse 10000, ScoreTick, ObstacleReport [\<lparr>px = 0, pz = - 1\<rparr>], AnimationFrame]"
  have c: "YetiCatch \<in> set (fst (updateObstaclePositions [\<lparr>px = 3, pz = 100\<rparr>] ?s))"
    by code_simp
  have n: "\<not> yetiCaught ?s" by code_simp
  have sc: "score ?s = 50" by code_simp
  from yeti_catch_is_terminal [OF refl c refl, of ?evs] n sc c show ?thesis
    by simp
qed

subsection \<open>Rounding to a double\<close>

lemma expUp_le: "e \<le> k \<Longrightarrow> a < 2 powi (k + 1) \<Longrightarrow> expUp e a \<le> k"
proof (induction e a rule: expUp.induct)
  case (1 e a)
  show ?case
  proof (cases "e < 1023 \<and> 2 powi (e + 1) \<le> a")
    case True
    have "e + 1 \<le> k"
    proof (rule ccontr)
      assume "\<not> e + 1 \<le> k"
      then have "k + 1 \<le> e + 1" by simp
      then have "(2::real) powi (k + 1) \<le> 2 powi (e + 1)"
        by (rule power_int_increasing) simp
      with True "1.prems"(2) show False by simp
    qed
    with "1.IH" [OF True] "1.prems"(2) have "expUp (e + 1) a \<le> k" by simp
    with True show ?thesis by (subst expUp.simps) simp
  next
    case False
    with "1.prems"(1) show ?thesis by (subst expUp.simps) auto
  qed
qed

lemma expDown_le: "expDown e a \<le> e"
proof (induction e a rule: expDown.induct)
  case (1 e a)
  show ?case
  proof (cases "- 1022 < e \<and> a < 2 powi e")
    case True
    with "1.IH" [OF True] show ?thesis by (subst expDown.simps) simp
  next
    case False
    then show ?thesis by (subst expDown.simps) auto
  qed
qed

lemma exponent_le_2: "\<bar>x\<bar> < 8 \<Longrightarrow> exponent x \<le> 2"
proof -
  assume "\<bar>x\<bar> < 8"
  then have "\<bar>x\<bar> < 2 powi (2 + 1)" by simp
  then have "expUp 0 \<bar>x\<bar> \<le> 2" by (intro expUp_le) simp_all
  moreover have "expDown (- 1) \<bar>x\<bar> \<le> 2" using expDown_le [of "- 1" "\<bar>x\<bar>"] by simp
  ultimately show ?thesis by (simp add: exponent_def)
qed

lemma ulp_pos: "0 < ulp x"
  by (simp add: ulp_def)

lemma ulp_le: "\<bar>x\<bar> < 8 \<Longrightarrow> ulp x \<le> 2 powi (- 50)"
proof -
  assume "\<bar>x\<bar> < 8"
  then have "exponent x - 52 \<le> - 50" using exponent_le_2 [of x] by simp
  then show ?thesis unfolding ulp_def by (rule power_int_increasing) simp
qed

lemma roundHalfEven_error: "\<bar>of_int (roundHalfEven y) - y\<bar> \<le> 1 / 2"
proof -
  have "of_int \<lfloor>y\<rfloor> \<le> y" "y < of_int \<lfloor>y\<rfloor> + 1" by linarith+
  then show ?thesis by (auto simp: roundHalfEven_def Let_def)
qed

lemma roundHalfEven_le: "y \<le> of_int N \<Longrightarrow> roundHalfEven y \<le> N"
proof -
  assume le: "y \<le> of_int N"
  then have f: "\<lfloor>y\<rfloor> \<le> N" by (simp add: floor_le_iff)
  show ?thesis
  proof (cases "\<lfloor>y\<rfloor> = N")
    case True
    with le have "y = of_int N" by (metis of_int_floor_le order_antisym)
    then show ?thesis by (simp add: roundHalfEven_def)
  next
    case False
    with f have "\<lfloor>y\<rfloor> + 1 \<le> N" by simp
    then show ?thesis by (auto simp: roundHalfEven_def Let_def)
  qed
qed

lemma roundHalfEven_ge: "of_int N \<le> y \<Longrightarrow> N \<le> roundHalfEven y"
proof -
  assume "of_int N \<le> y"
  then have "N \<le> \<lfloor>y\<rfloor>" by (simp add: le_floor_iff)
  then show ?thesis by (auto simp: roundHalfEven_def Let_def)
qed

lemma roundDouble_error:
  assumes "\<bar>x\<bar> < 8"
  shows "\<bar>roundDouble x - x\<bar> \<le> 2 powi (- 51)"
proof (cases "x = 0")
  case True
  then show ?thesis by (simp add: roundDouble_def)
next
  case False
  let ?u = "ulp x"
  have u: "0 < ?u" by (rule ulp_pos)
  have "roundDouble x - x = (of_int (roundHalfEven (x / ?u)) - x / ?u) * ?u"
    using False u by (simp add: roundDouble_def algebra_simps)
  then have "\<bar>roundDouble x - x\<bar> = \<bar>of_int (roundHalfEven (x / ?u)) - x / ?u\<bar> * ?u"
    using u by (simp add: abs_mult)
  also have "\<dots> \<le> 1 / 2 * ?u"
    using roundHalfEven_error [of "x / ?u"] u by (intro mult_right_mono) simp_all
  also have "\<dots> \<le> 1 / 2 * 2 powi (- 50)"
    using ulp_le [OF assms] by simp
  also have "\<dots> = 2 powi (- 51)" by simp
  finally show ?thesis .
qed

lemma four_over_ulp:
  assumes "\<bar>x\<bar> < 8"
  shows "4 / ulp x = of_int (2 ^ nat (54 - exponent x))"
proof -
  from exponent_le_2 [OF assms] have e: "0 \<le> 54 - exponent x" by simp
  have "4 / ulp x = 2 powi 2 / 2 powi (exponent x - 52)"
    by (simp add: ulp_def)
  also have "\<dots> = 2 powi (2 - (exponent x - 52))"
    by (simp add: power_int_diff)
  also have "2 - (exponent x - 52) = int (nat (54 - exponent x))"
    using e by simp
  also have "(2::real) powi int (nat (54 - exponent x)) = 2 ^ nat (54 - exponent x)"
    by (rule power_int_of_nat)
  finally show ?thesis by simp
qed

lemma roundDouble_le_4:
  assumes "x \<le> 4"
  shows "roundDouble x \<le> 4"
proof (cases "x \<le> 0")
  case True
  then have "x / ulp x \<le> of_int 0" using ulp_pos [of x] by (simp add: divide_nonpos_pos)
  then have "roundHalfEven (x / ulp x) \<le> 0" by (rule roundHalfEven_le)
  then have "of_int (roundHalfEven (x / ulp x)) * ulp x \<le> 0"
    using ulp_pos [of x] by (simp add: mult_nonpos_nonneg)
  then show ?thesis by (simp add: roundDouble_def)
next
  case False
  with assms have b: "\<bar>x\<bar> < 8" by simp
  let ?N = "2 ^ nat (54 - exponent x) :: int"
  have "x / ulp x \<le> 4 / ulp x" using assms ulp_pos [of x] by (simp add: divide_right_mono)
  then have "x / ulp x \<le> of_int ?N" by (simp only: four_over_ulp [OF b])
  then have "roundHalfEven (x / ulp x) \<le> ?N" by (rule roundHalfEven_le)
  then have "(of_int (roundHalfEven (x / ulp x)) :: real) \<le> of_int ?N" by (simp only: of_int_le_iff)
  then have "of_int (roundHalfEven (x / ulp x)) * ulp x \<le> of_int ?N * ulp x"
    using ulp_pos [of x] by (intro mult_right_mono) simp_all
  also have "of_int ?N * ulp x = 4"
    using four_over_ulp [OF b] ulp_pos [of x] by (simp add: field_simps)
  finally show ?thesis using False by (simp add: roundDouble_def)
qed

lemma roundDouble_ge_minus_4:
  assumes "- 4 \<le> x"
  shows "- 4 \<le> roundDouble x"
proof (cases "0 \<le> x")
  case True
  then have "of_int 0 \<le> x / ulp x" using ulp_pos [of x] by simp
  then have "0 \<le> roundHalfEven (x / ulp x)" by (rule roundHalfEven_ge)
  then have "0 \<le> of_int (roundHalfEven (x / ulp x)) * ulp x"
    using ulp_pos [of x] by simp
  then show ?thesis by (simp add: roundDouble_def)
next
  case False
  with assms have b: "\<bar>x\<bar> < 8" by simp
  let ?N = "2 ^ nat (54 - exponent x) :: int"
  have "- (4 / ulp x) \<le> x / ulp x"
    using assms ulp_pos [of x] by (simp add: field_simps)
  then have "of_int (- ?N) \<le> x / ulp x" by (simp only: four_over_ulp [OF b] of_int_minus)
  then have "- ?N \<le> roundHalfEven (x / ulp x)" by (rule roundHalfEven_ge)
  then have "(of_int (- ?N) :: real) \<le> of_int (roundHalfEven (x / ulp x))" by (simp only: of_int_le_iff)
  then have "of_int (- ?N) * ulp x \<le> of_int (roundHalfEven (x / ulp x)) * ulp x"
    using ulp_pos [of x] by (intro mult_right_mono) simp_all
  moreover have "of_int (- ?N) * ulp x = - 4"
    using four_over_ulp [OF b] ulp_pos [of x] by (simp add: field_simps)
  ultimately show ?thesis using False by (simp add: roundDouble_def)
qed

lemma moveSpeed_value: "moveSpeed = 3602879701896397 / 36028797018963968"
  by (simp add: moveSpeed_def)

lemma moveSpeed_double: "moveSpeed = roundDouble (1 / 10)"
  unfolding moveSpeed_def by code_simp

subsection \<open>The player's position\<close>

lemma updateObstaclePositions_position:
  "position (snd (updateObstaclePositions positions s)) = position s"
  by (auto simp: updateObstaclePositions_def Let_def handleCrash_def handleYetiCatch_def
      split: option.splits)

lemma handler_position_other:
  "ev \<noteq> AnimationFrame \<Longrightarrow> position (handler ev s) = position s"
  by (cases ev)
    (simp_all add: handleKeyDown_def handleKeyUp_def Let_def updateObstaclePositions_position
      handleYetiPositionUpdate_def scoreInterval_def fireDue_frame)

lemma yetiTriggerEffect_position: "position (yetiTriggerEffect s) = position s"
  by (simp add: yetiTriggerEffect_def)

lemma step_position:
  "position (step ev s) = (if ev = AnimationFrame then position (updatePosition s) else position s)"
  by (auto simp: step_def Let_def yetiTriggerEffect_position handler_position_other)

lemma clamp_up_arith:
  fixes x m eps r :: real
  assumes "- 4 \<le> x" and "x \<le> 4" and "0 < m" and "\<bar>r - (x + m)\<bar> \<le> eps" and "- 4 \<le> r"
  shows "- 4 \<le> min r 4 \<and> min r 4 \<le> 4 \<and> min r 4 - x \<le> m + eps \<and> - eps \<le> min r 4 - x"
proof (cases "r \<le> 4")
  case True
  with assms show ?thesis by (simp add: min_def) linarith
next
  case False
  with assms show ?thesis by (simp add: min_def) linarith
qed

lemma clamp_down_arith:
  fixes x m eps r :: real
  assumes "- 4 \<le> x" and "x \<le> 4" and "0 < m" and "\<bar>r - (x - m)\<bar> \<le> eps" and "r \<le> 4"
  shows "- 4 \<le> max r (- 4) \<and> max r (- 4) \<le> 4 \<and> - (m + eps) \<le> max r (- 4) - x \<and>
         max r (- 4) - x \<le> eps"
proof (cases "- 4 \<le> r")
  case True
  with assms show ?thesis by (simp add: max_def) linarith
next
  case False
  with assms show ?thesis by (simp add: max_def) linarith
qed

lemma moveLeft_bounds:
  assumes "- 4 \<le> x" and "x \<le> 4"
  shows "- 4 \<le> min (roundDouble (x + moveSpeed)) 4 \<and> min (roundDouble (x + moveSpeed)) 4 \<le> 4 \<and>
         min (roundDouble (x + moveSpeed)) 4 - x \<le> moveSpeed + 2 powi (- 51) \<and>
         - (2 powi (- 51)) \<le> min (roundDouble (x + moveSpeed)) 4 - x"
proof -
  have m: "0 < moveSpeed" "moveSpeed < 1" by (simp_all add: moveSpeed_value)
  with assms have "\<bar>x + moveSpeed\<bar> < 8" by linarith
  from roundDouble_error [OF this]
  have e: "\<bar>roundDouble (x + moveSpeed) - (x + moveSpeed)\<bar> \<le> 2 powi (- 51)" .
  from assms m have "- 4 \<le> x + moveSpeed" by linarith
  then have "- 4 \<le> roundDouble (x + moveSpeed)" by (rule roundDouble_ge_minus_4)
  with assms m(1) e show ?thesis by (intro clamp_up_arith)
qed

lemma moveRight_bounds:
  assumes "- 4 \<le> x" and "x \<le> 4"
  shows "- 4 \<le> max (roundDouble (x - moveSpeed)) (- 4) \<and>
         max (roundDouble (x - moveSpeed)) (- 4) \<le> 4 \<and>
         - (moveSpeed + 2 powi (- 51)) \<le> max (roundDouble (x - moveSpeed)) (- 4) - x \<and>
         max (roundDouble (x - moveSpeed)) (- 4) - x \<le> 2 powi (- 51)"
proof -
  have m: "0 < moveSpeed" "moveSpeed < 1" by (simp_all add: moveSpeed_value)
  with assms have "\<bar>x - moveSpeed\<bar> < 8" by linarith
  from roundDouble_error [OF this]
  have e: "\<bar>roundDouble (x - moveSpeed) - (x - moveSpeed)\<bar> \<le> 2 powi (- 51)" .
  from assms m have "x - moveSpeed \<le> 4" by linarith
  then have "roundDouble (x - moveSpeed) \<le> 4" by (rule roundDouble_le_4)
  with assms m(1) e show ?thesis by (intro clamp_down_arith)
qed

text \<open>The four cases of \<open>updatePosition\<close>: which of the two directions is held.\<close>

lemma updatePosition_position:
  "position (updatePosition s) =
     (if \<not> crashed s \<and> \<not> yetiCaught s then
        let p1 = (if held (keysPressed s) ''ArrowLeft'' \<or> held (keysPressed s) ''a''
                  then min (roundDouble (position s + moveSpeed)) 4 else position s)
        in (if held (keysPressed s) ''ArrowRight'' \<or> held (keysPressed s) ''d''
            then max (roundDouble (p1 - moveSpeed)) (- 4) else p1)
      else position s)"
  by (simp add: updatePosition_def Let_def slopeWidth_def)

lemma updatePosition_bounds:
  assumes "- 4 \<le> position s" and "position s \<le> 4"
  shows "- 4 \<le> position (updatePosition s) \<and> position (updatePosition s) \<le> 4 \<and>
         \<bar>position (updatePosition s) - position s\<bar> \<le> moveSpeed + 2 powi (- 50)"
proof -
  define x where "x = position s"
  define p1 where "p1 = min (roundDouble (x + moveSpeed)) 4"
  define eps :: real where "eps = 2 powi (- 51)"
  have m: "0 < moveSpeed" by (simp add: moveSpeed_value)
  have eps: "0 < eps" "eps + eps = 2 powi (- 50)" by (simp_all add: eps_def)
  from assms have x: "- 4 \<le> x" "x \<le> 4" by (simp_all add: x_def)
  have l: "- 4 \<le> p1 \<and> p1 \<le> 4 \<and> p1 - x \<le> moveSpeed + eps \<and> - eps \<le> p1 - x"
    unfolding p1_def eps_def using x by (rule moveLeft_bounds)
  have r: "- 4 \<le> max (roundDouble (x - moveSpeed)) (- 4) \<and>
           max (roundDouble (x - moveSpeed)) (- 4) \<le> 4 \<and>
           - (moveSpeed + eps) \<le> max (roundDouble (x - moveSpeed)) (- 4) - x \<and>
           max (roundDouble (x - moveSpeed)) (- 4) - x \<le> eps"
    unfolding eps_def using x by (rule moveRight_bounds)
  have lr: "- 4 \<le> max (roundDouble (p1 - moveSpeed)) (- 4) \<and>
           max (roundDouble (p1 - moveSpeed)) (- 4) \<le> 4 \<and>
           - (moveSpeed + eps) \<le> max (roundDouble (p1 - moveSpeed)) (- 4) - p1 \<and>
           max (roundDouble (p1 - moveSpeed)) (- 4) - p1 \<le> eps"
    unfolding eps_def using l by (intro moveRight_bounds) simp_all
  have goal: "- 4 \<le> q \<and> q \<le> 4 \<and> \<bar>q - x\<bar> \<le> moveSpeed + (eps + eps)"
    if "q = x \<or> q = p1 \<or> q = max (roundDouble (x - moveSpeed)) (- 4) \<or>
        q = max (roundDouble (p1 - moveSpeed)) (- 4)" for q
  proof -
    from that consider "q = x" | "q = p1" | "q = max (roundDouble (x - moveSpeed)) (- 4)"
      | "q = max (roundDouble (p1 - moveSpeed)) (- 4)"
      by blast
    then show ?thesis
    proof cases
      case 1
      with x m eps(1) show ?thesis by simp
    next
      case 2
      from l have "- 4 \<le> p1" "p1 \<le> 4" "p1 - x \<le> moveSpeed + eps" "- eps \<le> p1 - x"
        by simp_all
      with m eps(1) show ?thesis unfolding 2 abs_le_iff by linarith
    next
      case 3
      let ?q = "max (roundDouble (x - moveSpeed)) (- 4)"
      from r have "- 4 \<le> ?q" "?q \<le> 4" "- (moveSpeed + eps) \<le> ?q - x" "?q - x \<le> eps"
        by simp_all
      with m eps(1) show ?thesis unfolding 3 abs_le_iff by linarith
    next
      case 4
      let ?q = "max (roundDouble (p1 - moveSpeed)) (- 4)"
      from l have "p1 - x \<le> moveSpeed + eps" "- eps \<le> p1 - x"
        by simp_all
      moreover from lr have "- 4 \<le> ?q" "?q \<le> 4" "- (moveSpeed + eps) \<le> ?q - p1" "?q - p1 \<le> eps"
        by simp_all
      ultimately show ?thesis using m eps(1) unfolding 4 abs_le_iff by linarith
    qed
  qed
  have "position (updatePosition s) = x \<or> position (updatePosition s) = p1 \<or>
        position (updatePosition s) = max (roundDouble (x - moveSpeed)) (- 4) \<or>
        position (updatePosition s) = max (roundDouble (p1 - moveSpeed)) (- 4)"
    unfolding updatePosition_position x_def p1_def by (simp add: Let_def)
  from goal [OF this] show ?thesis unfolding eps(2) x_def .
qed

lemma step_bounds:
  assumes "- 4 \<le> position s" and "position s \<le> 4"
  shows "- 4 \<le> position (step ev s) \<and> position (step ev s) \<le> 4 \<and>
         \<bar>position (step ev s) - position s\<bar> \<le> moveSpeed + 2 powi (- 50)"
proof (cases "ev = AnimationFrame")
  case True
  with updatePosition_bounds [OF assms] show ?thesis by (simp add: step_position)
next
  case False
  with assms show ?thesis by (simp add: step_position moveSpeed_value)
qed

lemma run_bounds:
  "- 4 \<le> position s \<Longrightarrow> position s \<le> 4 \<Longrightarrow>
   - 4 \<le> position (run evs s) \<and> position (run evs s) \<le> 4"
proof (induction evs arbitrary: s)
  case Nil
  then show ?case by simp
next
  case (Cons ev evs)
  from step_bounds [OF Cons.prems, of ev] Cons.IH [of "step ev s"] show ?case by simp
qed

text \<open>
  Claim C4, as stated, fails in its second half: the third frame in a row with the key
  \<open>a\<close> held takes the position from the double 0.2 to the double 0.30000000000000004,
  which is more than \<open>moveSpeed\<close> away.
\<close>

theorem player_step_counterexample:
  "position (run [KeyDown ''a'' ''KeyA'', AnimationFrame, AnimationFrame] (initGame 0))
     = 3602879701896397 / 18014398509481984 \<and>
   position (step AnimationFrame
       (run [KeyDown ''a'' ''KeyA'', AnimationFrame, AnimationFrame] (initGame 0)))
     = 5404319552844596 / 18014398509481984 \<and>
   1 / 10 \<le> moveSpeed \<and>
   \<not> \<bar>position (step AnimationFrame
         (run [KeyDown ''a'' ''KeyA'', AnimationFrame, AnimationFrame] (initGame 0))) -
       position (run [KeyDown ''a'' ''KeyA'', AnimationFrame, AnimationFrame] (initGame 0))\<bar>
     \<le> moveSpeed"
proof -
  have a: "position (run [KeyDown ''a'' ''KeyA'', AnimationFrame, AnimationFrame] (initGame 0))
     = 3602879701896397 / 18014398509481984"
    by code_simp
  have b: "position (step AnimationFrame
       (run [KeyDown ''a'' ''KeyA'', AnimationFrame, AnimationFrame] (initGame 0)))
     = 5404319552844596 / 18014398509481984"
    by code_simp
  show ?thesis unfolding a b by (simp add: moveSpeed_value)
qed

text \<open>
  Claim C4, amended. Whatever the frames and the keys held, the player's position stays
  within \<open>[-slopeWidth/2 + 1, slopeWidth/2 - 1] = [-4, 4]\<close>: an update adds or subtracts
  \<open>moveSpeed\<close> in double precision and clamps the result to these bounds, so that no event
  moves the position by more than \<open>moveSpeed\<close> plus a rounding error of \<open>2 powi (-50)\<close>.
\<close>

theorem player_position_bounded:
  "- slopeWidth / 2 + 1 \<le> position (run evs (initGame t0)) \<and>
   position (run evs (initGame t0)) \<le> slopeWidth / 2 - 1 \<and>
   - slopeWidth / 2 + 1 = - 4 \<and> slopeWidth / 2 - 1 = 4 \<and>
   \<bar>position (step ev (run evs (initGame t0))) - position (run evs (initGame t0))\<bar>
     \<le> moveSpeed + 2 powi (- 50) \<and>
   position (step AnimationFrame s) =
     (if \<not> crashed s \<and> \<not> yetiCaught s then
        let p1 = (if held (keysPressed s) ''ArrowLeft'' \<or> held (keysPressed s) ''a''
                  then min (roundDouble (position s + moveSpeed)) 4 else position s)
        in (if held (keysPressed s) ''ArrowRight'' \<or> held (keysPressed s) ''d''
            then max (roundDouble (p1 - moveSpeed)) (- 4) else p1)
      else position s)"
proof -
  have b: "- 4 \<le> position (run evs (initGame t0)) \<and> position (run evs (initGame t0)) \<le> 4"
    by (rule run_bounds) (simp_all add: initGame_def)
  then have "\<bar>position (step ev (run evs (initGame t0))) - position (run evs (initGame t0))\<bar>
      \<le> moveSpeed + 2 powi (- 50)"
    using step_bounds [of "run evs (initGame t0)" ev] by blast
  moreover have "position (step AnimationFrame s) = position (updatePosition s)"
    by (simp add: step_position)
  ultimately show ?thesis using b
    by (simp only: updatePosition_position) (simp add: slopeWidth_def)
qed

theorem player_position_bounded_witness:
  "position (run [KeyDown ''a'' ''KeyA'', AnimationFrame, AnimationFrame, AnimationFrame,
                  KeyUp ''a'' ''KeyA'', KeyDown ''d'' ''KeyD'', AnimationFrame] (initGame 0))
     = 7205759403792795 / 36028797018963968 \<and>
   \<bar>position (step AnimationFrame
       (run [KeyDown ''a'' ''KeyA'', AnimationFrame, AnimationFrame, AnimationFrame,
             KeyUp ''a'' ''KeyA'', KeyDown ''d'' ''KeyD'', AnimationFrame] (initGame 0))) -
     position (run [KeyDown ''a'' ''KeyA'', AnimationFrame, AnimationFrame, AnimationFrame,
                    KeyUp ''a'' ''KeyA'', KeyDown ''d'' ''KeyD'', AnimationFrame] (initGame 0))\<bar>
     \<le> moveSpeed + 2 powi (- 50)"
proof -
  have "position (run [KeyDown ''a'' ''KeyA'', AnimationFrame, AnimationFrame, AnimationFrame,
                  KeyUp ''a'' ''KeyA'', KeyDown ''d'' ''KeyD'', AnimationFrame] (initGame 0))
     = 7205759403792795 / 36028797018963968"
    by code_simp
  with player_position_bounded [of "[KeyDown ''a'' ''KeyA'', AnimationFrame, AnimationFrame,
      AnimationFrame, KeyUp ''a'' ''KeyA'', KeyDown ''d'' ''KeyD'', AnimationFrame]" 0
      AnimationFrame "initGame 0"]
  show ?thesis by blast
qed

subsection \<open>The yeti trigger\<close>

lemma runActions_showYetiWarning:
  "showYetiWarning (runActions as s) \<longleftrightarrow> showYetiWarning s \<and> HideYetiWarning \<notin> set as"
proof (induction as arbitrary: s)
  case (Cons a as)
  then show ?case by (cases a) auto
qed simp

lemma updateObstaclePositions_yeti:
  "yetiHasAppeared (snd (updateObstaclePositions positions s)) = yetiHasAppeared s"
  "initialYetiPosition (snd (updateObstaclePositions positions s)) = initialYetiPosition s"
  "pendingAttacks (snd (updateObstaclePositions positions s)) = pendingAttacks s"
  "showYetiWarning (snd (updateObstaclePositions positions s)) = showYetiWarning s"
  by (auto simp: updateObstaclePositions_def Let_def handleCrash_def handleYetiCatch_def
      pendingAttacks_def split: option.splits)

lemma fireDue_yeti:
  "pendingAttacks (fireDue s) \<le> pendingAttacks s"
  "showYetiWarning (fireDue s) \<Longrightarrow> showYetiWarning s"
proof -
  show "pendingAttacks (fireDue s) \<le> pendingAttacks s"
    by (simp add: pendingAttacks_def fireDue_timeouts length_filter_conj_le)
  show "showYetiWarning s" if "showYetiWarning (fireDue s)"
    using that unfolding fireDue_def by (simp add: runActions_showYetiWarning)
qed

lemma handler_yeti:
  "yetiHasAppeared (handler ev s) = yetiHasAppeared s \<and>
   initialYetiPosition (handler ev s) = initialYetiPosition s \<and>
   pendingAttacks (handler ev s) \<le> pendingAttacks s \<and>
   (showYetiWarning (handler ev s) \<longrightarrow> showYetiWarning s)"
proof (cases ev)
  case (Elapse dt)
  have "pendingAttacks (fireDue (s\<lparr>now := now s + int dt\<rparr>)) \<le> pendingAttacks s"
    using fireDue_yeti(1) [of "s\<lparr>now := now s + int dt\<rparr>"] by (simp add: pendingAttacks_def)
  moreover have "showYetiWarning (fireDue (s\<lparr>now := now s + int dt\<rparr>)) \<longrightarrow> showYetiWarning s"
    using fireDue_yeti(2) [of "s\<lparr>now := now s + int dt\<rparr>"] by auto
  ultimately show ?thesis using Elapse by (simp add: fireDue_frame)
next
  case (ObstacleReport positions)
  then show ?thesis by (simp add: updateObstaclePositions_yeti)
qed (simp_all add: handleKeyDown_def handleKeyUp_def Let_def updateObstaclePositions_yeti
      updatePosition_def handleYetiPositionUpdate_def scoreInterval_def pendingAttacks_def)

lemma yetiTriggerEffect_idle: "yetiHasAppeared s \<Longrightarrow> yetiTriggerEffect s = s"
  by (simp add: yetiTriggerEffect_def yetiTriggerCond_def)

lemma step_appeared:
  assumes "yetiHasAppeared s"
  shows "yetiHasAppeared (step ev s) \<and>
   initialYetiPosition (step ev s) = initialYetiPosition s \<and>
   pendingAttacks (step ev s) \<le> pendingAttacks s \<and>
   (showYetiWarning (step ev s) \<longrightarrow> showYetiWarning s) \<and> \<not> stepFires ev s"
proof -
  from assms have a: "yetiHasAppeared (handler ev s)" by (simp add: handler_yeti)
  then have "step ev s = handler ev s"
    by (simp add: step_def Let_def yetiTriggerEffect_idle)
  with a handler_yeti [of ev s] show ?thesis
    by (simp add: stepFires_def yetiTriggerCond_def)
qed

lemma run_appeared:
  "yetiHasAppeared s \<Longrightarrow>
   yetiHasAppeared (run evs s) \<and>
   initialYetiPosition (run evs s) = initialYetiPosition s \<and>
   pendingAttacks (run evs s) \<le> pendingAttacks s \<and>
   (showYetiWarning (run evs s) \<longrightarrow> showYetiWarning s) \<and> triggerCount evs s = 0"
proof (induction evs arbitrary: s)
  case Nil
  then show ?case by simp
next
  case (Cons ev evs)
  from step_appeared [OF Cons.prems, of ev] Cons.IH [of "step ev s"] show ?case by auto
qed

lemma stepFires_appeared: "stepFires ev s \<Longrightarrow> yetiHasAppeared (step ev s)"
  by (simp add: stepFires_def step_def Let_def yetiTriggerEffect_def)

lemma triggerCount_le_1: "triggerCount evs s \<le> 1"
proof (induction evs arbitrary: s)
  case Nil
  then show ?case by simp
next
  case (Cons ev evs)
  show ?case
  proof (cases "stepFires ev s")
    case True
    then have "triggerCount evs (step ev s) = 0"
      using run_appeared [OF stepFires_appeared] by simp
    then show ?thesis by simp
  next
    case False
    with Cons.IH [of "step ev s"] show ?thesis by simp
  qed
qed

text \<open>
  Claim C8. The yeti trigger does its work at most once in a session. When it does (the score
  has reached \<open>YETI_APPEARANCE_SCORE\<close> and the yeti has not appeared) it shows the warning,
  schedules the end of the warning and the start of the attack, captures the spawn position
  and sets \<open>yetiHasAppeared\<close>. From then on the effect changes nothing, whatever the score
  does: no step of any later run triggers again, the spawn position stays as captured, no
  further attack is scheduled and the warning is not shown again.
\<close>

theorem yeti_trigger_once:
  "triggerCount evs s \<le> 1 \<and>
   (yetiTriggerCond s \<longrightarrow>
      yetiTriggerEffect s =
        s\<lparr> showYetiWarning := True,
           initialYetiPosition := (position s, 0, - 120),
           yetiHasAppeared := True,
           timeouts := timeouts s @
             [(now s + 3000, HideYetiWarning), (now s + YETI_ATTACK_DELAY, StartYetiAttack)] \<rparr>) \<and>
   (score s = YETI_APPEARANCE_SCORE - 1 \<and> \<not> crashed s \<and> \<not> yetiCaught s \<and> \<not> yetiHasAppeared s \<longrightarrow>
      stepFires ScoreTick s \<and> yetiHasAppeared (step ScoreTick s)) \<and>
   (yetiHasAppeared s \<longrightarrow>
      yetiTriggerEffect s = s \<and>
      triggerCount evs s = 0 \<and>
      yetiHasAppeared (run evs s) \<and>
      initialYetiPosition (run evs s) = initialYetiPosition s \<and>
      pendingAttacks (run evs s) \<le> pendingAttacks s \<and>
      (showYetiWarning (run evs s) \<longrightarrow> showYetiWarning s))"
proof -
  have "stepFires ScoreTick s" 
    if "score s = YETI_APPEARANCE_SCORE - 1" "\<not> crashed s" "\<not> yetiCaught s" "\<not> yetiHasAppeared s"
    using that by (simp add: stepFires_def depsChanged_def scoreInterval_def yetiTriggerCond_def)
  then show ?thesis
    using triggerCount_le_1 [of evs s] run_appeared [of s evs] stepFires_appeared [of ScoreTick s]
    by (auto simp: yetiTriggerEffect_def yetiTriggerCond_def)
qed

theorem yeti_trigger_once_witness:
  "yetiHasAppeared (run (replicate 50 ScoreTick) (initGame 1000)) \<and>
   triggerCount (replicate 50 ScoreTick) (initGame 1000) = 1 \<and>
   timeouts (run (replicate 50 ScoreTick) (initGame 1000)) =
     [(4000, HideYetiWarning), (6000, StartYetiAttack)] \<and>
   score (run ([ObstacleReport [\<lparr>px = 0, pz = - 1\<rparr>], Elapse 2000] @ replicate 50 ScoreTick)
           (run (replicate 50 ScoreTick) (initGame 1000))) = 50 \<and>
   triggerCount ([ObstacleReport [\<lparr>px = 0, pz = - 1\<rparr>], Elapse 2000] @ replicate 50 ScoreTick)
     (run (replicate 50 ScoreTick) (initGame 1000)) = 0 \<and>
   pendingAttacks
     (run ([ObstacleReport [\<lparr>px = 0, pz = - 1\<rparr>], Elapse 2000] @ replicate 50 ScoreTick)
           (run (replicate 50 ScoreTick) (initGame 1000))) \<le> 1"
proof -
  let ?s = "run (replicate 50 ScoreTick) (initGame 1000)"
  let ?evs = "[ObstacleReport [\<lparr>px = 0, pz = - 1\<rparr>], Elapse 2000] @ replicate 50 ScoreTick"
  have a: "yetiHasAppeared ?s" by code_simp
  have b: "triggerCount (replicate 50 ScoreTick) (initGame 1000) = 1" by code_simp
  have c: "timeouts ?s = [(4000, HideYetiWarning), (6000, StartYetiAttack)]" by code_simp
  have d: "score (run ?evs ?s) = 50" by code_simp
  have e: "pendingAttacks ?s = 1" unfolding pendingAttacks_def c by simp
  from yeti_trigger_once [of ?evs ?s] a b c d e show ?thesis by simp
qed

subsection \<open>Recovery from a tree crash\<close>

lemma now_handler: "now s \<le> now (handler ev s)"
  by (cases ev)
    (auto simp: handleKeyDown_def handleKeyUp_def Let_def updatePosition_def
      handleYetiPositionUpdate_def scoreInterval_def fireDue_frame
      updateObstaclePositions_def handleCrash_def handleYetiCatch_def split: option.splits)

lemma now_step: "now s \<le> now (step ev s)"
  using now_handler [of s ev] by (simp add: step_def Let_def yetiTriggerEffect_def)

lemma now_run: "now s \<le> now (run evs s)"
proof (induction evs arbitrary: s)
  case Nil
  then show ?case by simp
next
  case (Cons ev evs)
  from now_step [of s ev] Cons [of "step ev s"] show ?case by simp
qed

lemma recovering_fireDue:
  assumes "recovering D s"
  shows "recovering D (fireDue s)"
proof -
  from assms have c: "crashed s" and sc: "score s = 0" and n: "now s < D"
    and d: "(D, ClearCrashed) \<in> set (timeouts s)"
    and only: "\<forall>e \<in> set (timeouts s). snd e = ClearCrashed \<longrightarrow> fst e = D"
    by (simp_all add: recovering_def)
  from only n have "\<not> (\<exists>e \<in> set (timeouts s). due (now s) e \<and> snd e = ClearCrashed)"
    by (auto simp: due_def)
  with c have "crashed (fireDue s)" by (simp add: fireDue_crashed)
  moreover from d n have "(D, ClearCrashed) \<in> set (timeouts (fireDue s))"
    by (simp add: fireDue_timeouts due_def)
  moreover from only have "\<forall>e \<in> set (timeouts (fireDue s)). snd e = ClearCrashed \<longrightarrow> fst e = D"
    by (simp add: fireDue_timeouts)
  ultimately show ?thesis using sc n by (simp add: recovering_def fireDue_frame)
qed

lemma recovering_handler:
  assumes "recovering D s" and "now (handler ev s) < D"
  shows "recovering D (handler ev s) \<and> score (handler ev s) = score s \<and>
         position (handler ev s) = position s"
proof (cases ev)
  case (Elapse dt)
  with assms(2) have "now s + int dt < D" by (simp add: fireDue_frame)
  with assms(1) have "recovering D (s\<lparr>now := now s + int dt\<rparr>)"
    by (simp add: recovering_def)
  from recovering_fireDue [OF this] Elapse show ?thesis
    by (simp add: fireDue_frame)
qed (use assms(1) in \<open>auto simp: recovering_def handleKeyDown_def handleKeyUp_def
       updatePosition_def handleYetiPositionUpdate_def scoreInterval_def
       updateObstaclePositions_def Let_def\<close>)

lemma step_eq_handler:
  "score (handler ev s) = score s \<Longrightarrow> position (handler ev s) = position s \<Longrightarrow>
   step ev s = handler ev s"
  by (simp add: step_def depsChanged_def)

lemma recovering_step:
  assumes "recovering D s" and "now (step ev s) < D"
  shows "recovering D (step ev s)"
proof -
  from now_handler [of s ev] assms(1) have "now (handler ev s) < D \<or> D \<le> now (handler ev s)"
    by auto
  have "now (step ev s) = now (handler ev s)"
    by (simp add: step_def Let_def yetiTriggerEffect_def)
  with assms(2) have lt: "now (handler ev s) < D" by simp
  from recovering_handler [OF assms(1) lt] show ?thesis
    by (simp add: step_eq_handler)
qed

lemma recovering_run:
  "recovering D s \<Longrightarrow> now (run evs s) < D \<Longrightarrow> recovering D (run evs s)"
proof (induction evs arbitrary: s)
  case Nil
  then show ?case by simp
next
  case (Cons ev evs)
  from Cons.prems(2) now_run [of "step ev s" evs] have "now (step ev s) < D" by simp
  with Cons.prems(1) have "recovering D (step ev s)" by (rule recovering_step)
  with Cons.IH [of "step ev s"] Cons.prems(2) show ?case by simp
qed

lemma recovering_elapse:
  assumes "recovering D s" and "D \<le> now s + int dt"
  shows "\<not> crashed (step (Elapse dt) s)"
proof -
  let ?s1 = "s\<lparr>now := now s + int dt\<rparr>"
  from assms have "(D, ClearCrashed) \<in> set (timeouts ?s1)" and "due (now ?s1) (D, ClearCrashed)"
    by (simp_all add: recovering_def due_def)
  then have "\<not> crashed (fireDue ?s1)"
    unfolding fireDue_crashed by force
  moreover have "step (Elapse dt) s = fireDue ?s1"
    by (simp add: step_def depsChanged_def fireDue_frame)
  ultimately show ?thesis by simp
qed

lemma treeCrash_guards:
  assumes "TreeCrash \<in> set (fst (updateObstaclePositions positions s))"
  shows "positions \<noteq> [] \<and> \<not> crashed s \<and> \<not> yetiCaught s \<and> \<not> now s - lastCrashTime s < 500 \<and>
         scanObstacles (position s) positions \<noteq> None"
  using assms
  by (auto simp: updateObstaclePositions_def Let_def split: if_splits option.splits)

lemma step_treeCrash:
  assumes "TreeCrash \<in> set (fst (updateObstaclePositions positions s))" and "\<not> yetiAttacking s"
  shows "step (ObstacleReport positions) s = handleCrash (s\<lparr>obstaclePositions := positions\<rparr>)"
proof -
  from treeCrash_guards [OF assms(1)] assms(2)
  have h: "handler (ObstacleReport positions) s = handleCrash (s\<lparr>obstaclePositions := positions\<rparr>)"
    by (auto simp: updateObstaclePositions_def Let_def handleCrash_def split: option.splits)
  have "yetiTriggerEffect (handleCrash (s\<lparr>obstaclePositions := positions\<rparr>))
      = handleCrash (s\<lparr>obstaclePositions := positions\<rparr>)"
    using assms(2)
    by (simp add: yetiTriggerEffect_def yetiTriggerCond_def handleCrash_def YETI_APPEARANCE_SCORE_def)
  with h show ?thesis by (simp add: step_def Let_def)
qed

lemma step_treeCrash_attacking:
  assumes "TreeCrash \<in> set (fst (updateObstaclePositions positions s))" and "yetiAttacking s"
  shows "step (ObstacleReport positions) s =
           (if YetiCatch \<in> set (fst (updateObstaclePositions positions s))
            then handleYetiCatch (s\<lparr>obstaclePositions := positions\<rparr>)
            else s\<lparr>obstaclePositions := positions\<rparr>)"
proof -
  from treeCrash_guards [OF assms(1)] assms(2)
  have h: "handler (ObstacleReport positions) s =
           (if YetiCatch \<in> set (fst (updateObstaclePositions positions s))
            then handleYetiCatch (s\<lparr>obstaclePositions := positions\<rparr>)
            else s\<lparr>obstaclePositions := positions\<rparr>)"
    by (auto simp: updateObstaclePositions_def Let_def handleCrash_def split: option.splits)
  then have "score (handler (ObstacleReport positions) s) = score s"
    and "position (handler (ObstacleReport positions) s) = position s"
    by (simp_all add: handleYetiCatch_def)
  then have "step (ObstacleReport positions) s = handler (ObstacleReport positions) s"
    by (rule step_eq_handler)
  with h show ?thesis by simp
qed

text \<open>
  Claim C2. Let a tree collision be detected in a state \<open>s\<close> that the session has reached.
  Unless the yeti is attacking, the step sets \<open>crashed\<close>, resets the score to 0, records the
  time of the crash and schedules the recovery at \<open>CRASH_RECOVERY_TIME = 2000\<close> ms from now;
  whatever happens next, while the clock is before that deadline the player stays crashed
  with score 0, and the first lapse of time that reaches the deadline clears \<open>crashed\<close>.
  When the yeti is attacking, the collision changes neither the score, nor the time of the
  last crash, nor the timeouts, and \<open>crashed\<close> is set only if the yeti catches the player in
  the same check.
\<close>

theorem tree_collision_recovery:
  assumes s: "s = run evs0 (initGame t0)"
    and hit: "TreeCrash \<in> set (fst (updateObstaclePositions positions s))"
    and s': "s' = step (ObstacleReport positions) s"
  shows "CRASH_RECOVERY_TIME = 2000 \<and>
         (\<not> yetiAttacking s \<longrightarrow>
            crashed s' \<and> score s' = 0 \<and> lastCrashTime s' = now s \<and>
            (now s + CRASH_RECOVERY_TIME, ClearCrashed) \<in> set (timeouts s') \<and>
            (\<forall>evs. now (run evs s') < now s + CRASH_RECOVERY_TIME \<longrightarrow>
               crashed (run evs s') \<and> score (run evs s') = 0 \<and>
               (\<forall>dt. now s + CRASH_RECOVERY_TIME \<le> now (run evs s') + int dt \<longrightarrow>
                  \<not> crashed (step (Elapse dt) (run evs s'))))) \<and>
         (yetiAttacking s \<longrightarrow>
            score s' = score s \<and> lastCrashTime s' = lastCrashTime s \<and>
            timeouts s' = timeouts s \<and>
            (crashed s' \<longleftrightarrow> YetiCatch \<in> set (fst (updateObstaclePositions positions s))))"
proof -
  have inv: "recoveryInv s" unfolding s by (simp add: recoveryInv_run recoveryInv_init)
  from treeCrash_guards [OF hit] have nc: "\<not> crashed s" by simp
  with inv have p0: "pendingRecoveries s = 0" by (simp add: recoveryInv_def)
  have free: ?thesis if "\<not> yetiAttacking s"
  proof -
    let ?D = "now s + CRASH_RECOVERY_TIME"
    from step_treeCrash [OF hit that] s'
    have eq: "s' = handleCrash (s\<lparr>obstaclePositions := positions\<rparr>)" by simp
    from p0 have "\<forall>e \<in> set (timeouts s). snd e \<noteq> ClearCrashed"
      by (simp add: pendingRecoveries_0_iff)
    with that have rec: "recovering ?D s'"
      unfolding eq by (auto simp: recovering_def handleCrash_def CRASH_RECOVERY_TIME_def)
    have later: "crashed (run evs s') \<and> score (run evs s') = 0 \<and>
               (\<forall>dt. ?D \<le> now (run evs s') + int dt \<longrightarrow>
                  \<not> crashed (step (Elapse dt) (run evs s')))" if "now (run evs s') < ?D" for evs
    proof -
      from recovering_run [OF rec that] have r: "recovering ?D (run evs s')" .
      then show ?thesis using recovering_elapse [OF r] by (simp add: recovering_def)
    qed
    from that have "lastCrashTime s' = now s" unfolding eq by (simp add: handleCrash_def)
    with rec later that show ?thesis
      by (simp add: recovering_def CRASH_RECOVERY_TIME_def)
  qed
  have att: ?thesis if "yetiAttacking s"
  proof -
    from step_treeCrash_attacking [OF hit that] s' nc that show ?thesis
      by (simp add: handleYetiCatch_def CRASH_RECOVERY_TIME_def)
  qed
  from free att show ?thesis by blast
qed

theorem tree_collision_recovery_witness:
  "TreeCrash \<in> set (fst (updateObstaclePositions [\<lparr>px = 0, pz = - 1\<rparr>]
      (run (replicate 7 ScoreTick) (initGame 1000)))) \<and>
   \<not> yetiAttacking (run (replicate 7 ScoreTick) (initGame 1000)) \<and>
   score (run (replicate 7 ScoreTick) (initGame 1000)) = 7 \<and>
   crashed (step (ObstacleReport [\<lparr>px = 0, pz = - 1\<rparr>])
      (run (replicate 7 ScoreTick) (initGame 1000))) \<and>
   score (step (ObstacleReport [\<lparr>px = 0, pz = - 1\<rparr>])
      (run (replicate 7 ScoreTick) (initGame 1000))) = 0 \<and>
   lastCrashTime (step (ObstacleReport [\<lparr>px = 0, pz = - 1\<rparr>])
      (run (replicate 7 ScoreTick) (initGame 1000))) = 1000 \<and>
   crashed (run [Elapse 1999, ScoreTick] (step (ObstacleReport [\<lparr>px = 0, pz = - 1\<rparr>])
      (run (replicate 7 ScoreTick) (initGame 1000)))) \<and>
   \<not> crashed (step (Elapse 1) (run [Elapse 1999, ScoreTick]
      (step (ObstacleReport [\<lparr>px = 0, pz = - 1\<rparr>])
      (run (replicate 7 ScoreTick) (initGame 1000))))) \<and>
   TreeCrash \<in> set (fst (updateObstaclePositions [\<lparr>px = 0, pz = - 1\<rparr>]
      (run (replicate 50 ScoreTick @ [Elapse 5000]) (initGame 1000)))) \<and>
   yetiAttacking (run (replicate 50 ScoreTick @ [Elapse 5000]) (initGame 1000)) \<and>
   score (step (ObstacleReport [\<lparr>px = 0, pz = - 1\<rparr>])
      (run (replicate 50 ScoreTick @ [Elapse 5000]) (initGame 1000))) = 50 \<and>
   \<not> crashed (step (ObstacleReport [\<lparr>px = 0, pz = - 1\<rparr>])
      (run (replicate 50 ScoreTick @ [Elapse 5000]) (initGame 1000)))"
proof -
  let ?p = "[\<lparr>px = 0, pz = - 1\<rparr>]"
  let ?s = "run (replicate 7 ScoreTick) (initGame 1000)"
  let ?s' = "step (ObstacleReport ?p) ?s"
  let ?a = "run (replicate 50 ScoreTick @ [Elapse 5000]) (initGame 1000)"
  let ?a' = "step (ObstacleReport ?p) ?a"
  have hit: "TreeCrash \<in> set (fst (updateObstaclePositions ?p ?s))" by code_simp
  have na: "\<not> yetiAttacking ?s" by code_simp
  have sc: "score ?s = 7" by code_simp
  have t: "now ?s = 1000" by code_simp
  have t': "now (run [Elapse 1999, ScoreTick] ?s') = 2999" by code_simp
  have hit_a: "TreeCrash \<in> set (fst (updateObstaclePositions ?p ?a))" by code_simp
  have att: "yetiAttacking ?a" by code_simp
  have sc_a: "score ?a = 50" by code_simp
  have nocatch: "YetiCatch \<notin> set (fst (updateObstaclePositions ?p ?a))" by code_simp
  from tree_collision_recovery [OF refl hit refl] na t
  have free: "crashed ?s' \<and> score ?s' = 0 \<and> lastCrashTime ?s' = 1000 \<and>
      (\<forall>evs. now (run evs ?s') < 1000 + CRASH_RECOVERY_TIME \<longrightarrow>
         crashed (run evs ?s') \<and> score (run evs ?s') = 0 \<and>
         (\<forall>dt. 1000 + CRASH_RECOVERY_TIME \<le> now (run evs ?s') + int dt \<longrightarrow>
            \<not> crashed (step (Elapse dt) (run evs ?s'))))"
    by simp
  then have "now (run [Elapse 1999, ScoreTick] ?s') < 1000 + CRASH_RECOVERY_TIME \<longrightarrow>
         crashed (run [Elapse 1999, ScoreTick] ?s') \<and>
         (1000 + CRASH_RECOVERY_TIME \<le> now (run [Elapse 1999, ScoreTick] ?s') + int 1 \<longrightarrow>
            \<not> crashed (step (Elapse 1) (run [Elapse 1999, ScoreTick] ?s')))"
    by blast
  then have later: "crashed (run [Elapse 1999, ScoreTick] ?s') \<and>
      \<not> crashed (step (Elapse 1) (run [Elapse 1999, ScoreTick] ?s'))"
    unfolding t' by (simp add: CRASH_RECOVERY_TIME_def)
  from tree_collision_recovery [OF refl hit_a refl] att sc_a nocatch
  have "score ?a' = 50 \<and> \<not> crashed ?a'" by simp
  with hit na sc free later hit_a att show ?thesis by blast
qed

subsection \<open>The obstacle tree: advance and predicted position\<close>

lemma advanceAndReport_report:
  "fst (advanceAndReport reset True amount t) =
     Some \<lparr> px = refX t,
            pz = (refZ t - amount) - amount * predictionFactor \<bar>refZ t - amount\<bar> \<rparr>"
  by (simp add: advanceAndReport_def Let_def split: prod.splits)

lemma predictionFactor_nonneg: "0 \<le> predictionFactor d"
  by (simp add: predictionFactor_def)

lemma moveAmount_nonneg: "0 \<le> delta \<Longrightarrow> 0 \<le> moveAmount delta"
  by (simp add: moveAmount_def SLOPE_SPEED_def)

lemma moveAmount_lanes_nonneg: "0 \<le> delta \<Longrightarrow> 0 \<le> moveAmount_lanes delta"
  by (simp add: moveAmount_lanes_def SLOPE_SPEED_def Let_def)

lemma predicted_le:
  "0 \<le> amount \<Longrightarrow> (z - amount) - amount * predictionFactor \<bar>z - amount\<bar> \<le> z - amount"
  using predictionFactor_nonneg [of "\<bar>z - amount\<bar>"] by (simp add: mult_nonneg_nonneg)

text \<open>
  Claim C7. In both versions of the obstacle tree, a frame (with a callback to report to)
  reports the tree's x and the predicted z, which is the z after this frame's advance minus
  the advance times the prediction factor; the factor is 0.2 when the distance \<open>|z|\<close> is
  below 5, 0.5 when it is below 15, and 1 otherwise. For a frame time that is not negative the
  reported z is at most the z after the advance.
\<close>

theorem predicted_z_report:
  "fst (ObstacleTree_useFrame True True delta rnd t) =
     Some \<lparr> px = refX t,
            pz = (refZ t - moveAmount delta) -
                 moveAmount delta * predictionFactor \<bar>refZ t - moveAmount delta\<bar> \<rparr> \<and>
   fst (ObstacleTree_useFrame_lanes True True delta rnd t) =
     Some \<lparr> px = refX t,
            pz = (refZ t - moveAmount_lanes delta) -
                 moveAmount_lanes delta * predictionFactor \<bar>refZ t - moveAmount_lanes delta\<bar> \<rparr> \<and>
   predictionFactor d = (if d < 5 then 0.2 else if d < 15 then 0.5 else 1) \<and>
   (0 \<le> delta \<longrightarrow>
      (\<forall>p. fst (ObstacleTree_useFrame True True delta rnd t) = Some p \<longrightarrow>
           pz p \<le> refZ t - moveAmount delta) \<and>
      (\<forall>p. fst (ObstacleTree_useFrame_lanes True True delta rnd t) = Some p \<longrightarrow>
           pz p \<le> refZ t - moveAmount_lanes delta))"
proof -
  have a: "fst (ObstacleTree_useFrame True True delta rnd t) =
     Some \<lparr> px = refX t,
            pz = (refZ t - moveAmount delta) -
                 moveAmount delta * predictionFactor \<bar>refZ t - moveAmount delta\<bar> \<rparr>"
    by (simp add: ObstacleTree_useFrame_def advanceAndReport_report)
  have b: "fst (ObstacleTree_useFrame_lanes True True delta rnd t) =
     Some \<lparr> px = refX t,
            pz = (refZ t - moveAmount_lanes delta) -
                 moveAmount_lanes delta * predictionFactor \<bar>refZ t - moveAmount_lanes delta\<bar> \<rparr>"
    by (simp add: ObstacleTree_useFrame_lanes_def advanceAndReport_report)
  have c: "predictionFactor d = (if d < 5 then 0.2 else if d < 15 then 0.5 else 1)"
    by (simp add: predictionFactor_def)
  have d: "pz p \<le> refZ t - moveAmount delta"
    if "0 \<le> delta" and "fst (ObstacleTree_useFrame True True delta rnd t) = Some p" for p
  proof -
    from that(2) a have "p = \<lparr> px = refX t,
            pz = (refZ t - moveAmount delta) -
                 moveAmount delta * predictionFactor \<bar>refZ t - moveAmount delta\<bar> \<rparr>"
      by simp
    then have "pz p = (refZ t - moveAmount delta) -
                 moveAmount delta * predictionFactor \<bar>refZ t - moveAmount delta\<bar>"
      by simp
    with predicted_le [OF moveAmount_nonneg [OF that(1)], of "refZ t"] show ?thesis by simp
  qed
  have e: "pz p \<le> refZ t - moveAmount_lanes delta"
    if "0 \<le> delta" and "fst (ObstacleTree_useFrame_lanes True True delta rnd t) = Some p" for p
  proof -
    from that(2) b have "p = \<lparr> px = refX t,
            pz = (refZ t - moveAmount_lanes delta) -
                 moveAmount_lanes delta * predictionFactor \<bar>refZ t - moveAmount_lanes delta\<bar> \<rparr>"
      by simp
    then have "pz p = (refZ t - moveAmount_lanes delta) -
                 moveAmount_lanes delta * predictionFactor \<bar>refZ t - moveAmount_lanes delta\<bar>"
      by simp
    with predicted_le [OF moveAmount_lanes_nonneg [OF that(1)], of "refZ t"] show ?thesis by simp
  qed
  from a b c d e show ?thesis by blast
qed

theorem predicted_z_report_witness:
  "(0::real) \<le> 1 / 50 \<and>
   fst (ObstacleTree_useFrame True True (1 / 50) (1 / 2) (initTree\<lparr>refZ := 3\<rparr>)) =
     Some \<lparr>px = 0, pz = 2424 / 1000\<rparr> \<and>
   fst (ObstacleTree_useFrame_lanes True True (1 / 50) (1 / 2) (initTree\<lparr>refZ := 3\<rparr>)) =
     Some \<lparr>px = 0, pz = 2424 / 1000\<rparr> \<and>
   (2424 / 1000 :: real) \<le> 3 - moveAmount (1 / 50)"
proof -
  have m: "moveAmount (1 / 50) = 48 / 100" "moveAmount_lanes (1 / 50) = 48 / 100"
    by (simp_all add: moveAmount_def moveAmount_lanes_def SLOPE_SPEED_def Let_def)
  have x: "refX (initTree\<lparr>refZ := 3\<rparr>) = 0" "refZ (initTree\<lparr>refZ := 3\<rparr>) = 3"
    by (simp_all add: initTree_def)
  have f: "predictionFactor \<bar>3 - 48 / 100\<bar> = 2 / 10"
    by (simp add: predictionFactor_def)
  from predicted_z_report [of "1 / 50" "1 / 2" "initTree\<lparr>refZ := 3\<rparr>" 0]
  show ?thesis unfolding m x f by simp
qed

subsection \<open>The frame time and its cap\<close>

lemma moveAmount_lanes_capped: "moveAmount_lanes delta \<le> SLOPE_SPEED * 0.05 * 60"
  by (simp add: moveAmount_lanes_def SLOPE_SPEED_def Let_def min_def)

lemma Yeti_useFrame_capped:
  "Yeti_useFrame mounted attacking hasCallback initialPosition playerPosition elapsed delta y =
   Yeti_useFrame mounted attacking hasCallback initialPosition playerPosition elapsed
     (min delta 0.05) y"
  by (simp add: Yeti_useFrame_def)

text \<open>
  Claim C5. The lanes version of the obstacle tree and the yeti cap the frame time at 0.05 s
  (the two lemmas above). The version of \<open>src/components/ObstacleTree.tsx\<close> does not: with a
  frame time of 1 s a tree at the spawn distance advances by 24, not by at most
  \<open>SLOPE_SPEED * 0.05 * 60 = 1.2\<close>.
\<close>

theorem ObstacleTree_frame_time_not_capped:
  "moveAmount 1 = 24 \<and> SLOPE_SPEED * 0.05 * 60 = 1.2 \<and>
   refZ initTree = 120 \<and>
   refZ (snd (ObstacleTree_useFrame True True 1 (1 / 2) initTree)) = 96 \<and>
   \<not> moveAmount 1 \<le> SLOPE_SPEED * 0.05 * 60"
  by (simp add: moveAmount_def SLOPE_SPEED_def ObstacleTree_useFrame_def advanceAndReport_def
      initTree_def OBSTACLE_SPAWN_DISTANCE_def Let_def predictionFactor_def)

subsection \<open>The yeti's frames\<close>

lemma phaseStep_attackPhase:
  "attackPhase (phaseStep ip pl e sd y) =
     (case attackPhase y of
        APPROACH \<Rightarrow> if posZ y < - 40 then CHASE else APPROACH
      | CHASE \<Rightarrow> if posZ y < - 7 then ATTACK else CHASE
      | ATTACK \<Rightarrow> ATTACK)"
  by (simp add: phaseStep_def split: AttackPhase.splits)

lemma Yeti_useFrame_attackPhase:
  "attackPhase (snd (Yeti_useFrame mounted attacking cb ip pl e d y)) =
     (if mounted \<and> attacking then attackPhase (phaseStep ip pl e (min d 0.05) y)
      else attackPhase y)"
  by (simp add: Yeti_useFrame_def Let_def)

lemma Yeti_useFrame_rank:
  "phaseRank (attackPhase y) \<le>
   phaseRank (attackPhase (snd (Yeti_useFrame mounted attacking cb ip pl e d y)))"
  by (simp add: Yeti_useFrame_attackPhase phaseStep_attackPhase split: AttackPhase.splits)

lemma Yeti_frames_rank:
  "phaseRank (attackPhase y) \<le> phaseRank (attackPhase (Yeti_frames cb ip frames y))"
proof (induction frames arbitrary: y)
  case Nil
  then show ?case by simp
next
  case (Cons f frames)
  obtain attacking pl e d where f: "f = (attacking, pl, e, d)"
    by (cases f) auto
  have "phaseRank (attackPhase y) \<le>
        phaseRank (attackPhase (snd (Yeti_useFrame True attacking cb ip pl e d y)))"
    by (rule Yeti_useFrame_rank)
  also have "\<dots> \<le> phaseRank (attackPhase (Yeti_frames cb ip (f # frames) y))"
    unfolding f using Cons.IH by simp
  finally show ?case .
qed

lemma phaseRank_ATTACK: "2 \<le> phaseRank p \<longleftrightarrow> p = ATTACK"
  by (cases p) simp_all

text \<open>
  Claim C9. Over any sequence of frames the phase never moves backward. One attacking frame
  takes APPROACH to CHASE exactly when the yeti's z is below -40 and otherwise leaves it,
  takes CHASE to ATTACK exactly when the z is below -7 and otherwise leaves it, and leaves
  ATTACK; so ATTACK, once reached, stays.
\<close>

theorem phase_monotone:
  "phaseRank (attackPhase y) \<le> phaseRank (attackPhase (Yeti_frames cb ip frames y)) \<and>
   attackPhase (snd (Yeti_useFrame True True cb ip pl e d y)) =
     (case attackPhase y of
        APPROACH \<Rightarrow> if posZ y < - 40 then CHASE else APPROACH
      | CHASE \<Rightarrow> if posZ y < - 7 then ATTACK else CHASE
      | ATTACK \<Rightarrow> ATTACK) \<and>
   (attackPhase y = ATTACK \<longrightarrow> attackPhase (Yeti_frames cb ip frames y) = ATTACK)"
proof -
  have "attackPhase (Yeti_frames cb ip frames y) = ATTACK" if "attackPhase y = ATTACK"
    using Yeti_frames_rank [of y cb ip frames] that by (simp add: phaseRank_ATTACK)
  then show ?thesis
    using Yeti_frames_rank [of y cb ip frames]
    by (simp add: Yeti_useFrame_attackPhase phaseStep_attackPhase)
qed

text \<open>
  Claim C10. While \<open>attacking\<close> is false a frame of the yeti returns at once: nothing is
  reported and the whole state (position, phase, chase speed, emergence height, arm angle
  and jump height, targets) is what it was.
\<close>

theorem yeti_idle_unless_attacking:
  "\<not> attacking \<Longrightarrow>
   Yeti_useFrame mounted attacking hasCallback initialPosition playerPosition elapsed delta y
     = (None, y)"
  by (simp add: Yeti_useFrame_def)

text \<open>
  Claim C6, as stated, fails: a mounted yeti whose \<open>attacking\<close> prop is false reports
  nothing.
\<close>

theorem yeti_report_counterexample:
  "fst (Yeti_useFrame True False True (0, 0, - 120) \<lparr>px = 0, pz = 0\<rparr> 0 (1 / 60)
         (initYeti (0, 0, - 120))) = None"
  by (simp add: Yeti_useFrame_def)

text \<open>
  Claim C6, amended. In every frame in which \<open>attacking\<close> is true, the mounted yeti reports
  through \<open>onPositionUpdate\<close> the position it has after the frame's movement, in whichever
  phase it is; in a frame in which \<open>attacking\<close> is false it reports nothing. The collision
  check is gated on the attacking flag of its own: it signals a catch only while
  \<open>yetiAttacking\<close> holds.
\<close>

theorem yeti_reports_while_attacking:
  "fst (Yeti_useFrame True attacking True initialPosition playerPosition elapsed delta y) =
     (if attacking then
        Some \<lparr> px = posX (snd (Yeti_useFrame True attacking True initialPosition playerPosition
                                  elapsed delta y)),
               pz = posZ (snd (Yeti_useFrame True attacking True initialPosition playerPosition
                                  elapsed delta y)) \<rparr>
      else None) \<and>
   (YetiCatch \<in> set (fst (updateObstaclePositions positions s)) \<longrightarrow> yetiAttacking s) \<and>
   (\<not> yetiAttacking s \<longrightarrow>
      fst (updateObstaclePositions positions (s\<lparr>yetiPosition := reported\<rparr>)) =
      fst (updateObstaclePositions positions s))"
proof -
  have "fst (updateObstaclePositions positions (s\<lparr>yetiPosition := reported\<rparr>)) =
        fst (updateObstaclePositions positions s)" if "\<not> yetiAttacking s"
    using that
    by (auto simp: updateObstaclePositions_def Let_def handleCrash_def split: option.splits)
  then show ?thesis
    using yetiCatch_guards [of positions s] by (simp add: Yeti_useFrame_def Let_def)
qed

lemma first_two_frames:
  "attackPhase (initYeti (0, 0, - 120)) = APPROACH"
  "attackPhase (Yeti_frames True (0, 0, - 120)
      [(True, \<lparr>px = 0, pz = 0\<rparr>, 0, 1 / 60), (True, \<lparr>px = 0, pz = 0\<rparr>, 0, 1 / 60)]
      (initYeti (0, 0, - 120))) = ATTACK"
  by (simp_all add: Yeti_useFrame_def phaseStep_def initYeti_def lerp_def Let_def)

theorem phase_monotone_witness:
  "attackPhase (initYeti (0, 0, - 120)) = APPROACH \<and>
   attackPhase (Yeti_frames True (0, 0, - 120)
      [(True, \<lparr>px = 0, pz = 0\<rparr>, 0, 1 / 60), (True, \<lparr>px = 0, pz = 0\<rparr>, 0, 1 / 60)]
      (initYeti (0, 0, - 120))) = ATTACK \<and>
   attackPhase (Yeti_frames True (0, 0, - 120) [(True, \<lparr>px = 3, pz = 0\<rparr>, 1, 1 / 30)]
     (Yeti_frames True (0, 0, - 120)
      [(True, \<lparr>px = 0, pz = 0\<rparr>, 0, 1 / 60), (True, \<lparr>px = 0, pz = 0\<rparr>, 0, 1 / 60)]
      (initYeti (0, 0, - 120)))) = ATTACK"
proof -
  let ?y = "Yeti_frames True (0, 0, - 120)
      [(True, \<lparr>px = 0, pz = 0\<rparr>, 0, 1 / 60), (True, \<lparr>px = 0, pz = 0\<rparr>, 0, 1 / 60)]
      (initYeti (0, 0, - 120))"
  from phase_monotone [of ?y True "(0, 0, - 120)" "[(True, \<lparr>px = 3, pz = 0\<rparr>, 1, 1 / 30)]"]
    first_two_frames(2)
  have "attackPhase (Yeti_frames True (0, 0, - 120) [(True, \<lparr>px = 3, pz = 0\<rparr>, 1, 1 / 30)] ?y) = ATTACK"
    by blast
  with first_two_frames show ?thesis by blast
qed

theorem yeti_idle_unless_attacking_witness:
  "\<not> False \<and>
   Yeti_useFrame True False True (0, 0, - 120) \<lparr>px = 1, pz = 0\<rparr> 2 (1 / 60)
     (initYeti (0, 0, - 120)) = (None, initYeti (0, 0, - 120))"
  using yeti_idle_unless_attacking [of False True True "(0, 0, - 120)" "\<lparr>px = 1, pz = 0\<rparr>" 2
      "1 / 60" "initYeti (0, 0, - 120)"]
  by blast

lemma first_frame_position:
  "posX (snd (Yeti_useFrame True True True (0, 0, - 120) \<lparr>px = 0, pz = 0\<rparr> 0 (1 / 60)
      (initYeti (0, 0, - 120)))) = 1 / 10"
  "posZ (snd (Yeti_useFrame True True True (0, 0, - 120) \<lparr>px = 0, pz = 0\<rparr> 0 (1 / 60)
      (initYeti (0, 0, - 120)))) = - 118494 / 1000"
  by (simp_all add: Yeti_useFrame_def phaseStep_def initYeti_def lerp_def Let_def)

theorem yeti_reports_while_attacking_witness:
  "fst (Yeti_useFrame True True True (0, 0, - 120) \<lparr>px = 0, pz = 0\<rparr> 0 (1 / 60)
      (initYeti (0, 0, - 120))) = Some \<lparr>px = 1 / 10, pz = - 118494 / 1000\<rparr> \<and>
   \<not> yetiAttacking (initGame 1000) \<and>
   fst (updateObstaclePositions [\<lparr>px = 3, pz = 100\<rparr>]
         ((initGame 1000)\<lparr>yetiPosition := Some \<lparr>px = 0, pz = - 1\<rparr>\<rparr>)) =
   fst (updateObstaclePositions [\<lparr>px = 3, pz = 100\<rparr>] (initGame 1000))"
proof -
  have n: "\<not> yetiAttacking (initGame 1000)" by (simp add: initGame_def)
  from yeti_reports_while_attacking [of True "(0, 0, - 120)" "\<lparr>px = 0, pz = 0\<rparr>" 0 "1 / 60"
      "initYeti (0, 0, - 120)" "[\<lparr>px = 3, pz = 100\<rparr>]" "initGame 1000"
      "Some \<lparr>px = 0, pz = - 1\<rparr>"] n
  show ?thesis unfolding first_frame_position by simp
qed

end
